theory Spec2Isabelle
  imports Complex_Main "HOL-Library.Word"
begin

section \<open>The shared directory and the Python exceptions\<close>

text \<open>
  The module \<^verbatim>\<open>optflow.py\<close> coordinates optical-flow jobs of several workers through
  files of one shared directory. The model is a shallow embedding: every function of the
  module is a HOL function over an explicit file system; an exception is the \<open>Inl\<close> of a
  sum, returned together with the file system as the failing call left it.
\<close>

type_synonym byte = "8 word"
type_synonym path = string

text \<open>
  The ways the operating system refuses to create, write or remove a path, other than
  "the file exists already" (which is decided by the file table itself).
\<close>

datatype errno = EACCES | ENOENT | ENOSPC | EIO

datatype exn =
    FileExistsError
  | FileNotFoundError
  | PermissionError
  | OSError errno
  | OverflowError
  | CvError

text \<open>Python maps an errno to a subclass of \<^verbatim>\<open>OSError\<close> (PEP 3151).\<close>

fun os_error :: "errno \<Rightarrow> exn" where
  "os_error EACCES = PermissionError"
| "os_error ENOENT = FileNotFoundError"
| "os_error e = OSError e"

text \<open>
  \<open>files\<close> are the files a worker sees, with their content; \<open>fault p\<close> is the error the
  operating system answers to an attempt to create, truncate or remove \<open>p\<close> (a directory
  that is not writable, a full disk), if any.
\<close>

record fs =
  files :: "path \<rightharpoonup> byte list"
  fault :: "path \<rightharpoonup> errno"

type_synonym 'a io = "fs \<Rightarrow> (exn + 'a) \<times> fs"

definition exists_file :: "fs \<Rightarrow> path \<Rightarrow> bool" where
  "exists_file s p \<longleftrightarrow> files s p \<noteq> None"

text \<open>
  \<^verbatim>\<open>open(p, 'x')\<close>: exclusive creation, one atomic step of the file system (\<^verbatim>\<open>O_CREAT|O_EXCL\<close>).
  An existing file is reported first, as \<^verbatim>\<open>open(2)\<close> does for a directory that can be
  searched; otherwise the create is refused with the fault of the path, or an empty file
  appears.
\<close>

definition open_x :: "path \<Rightarrow> unit io" where
  "open_x p s =
     (if exists_file s p then (Inl FileExistsError, s)
      else case fault s p of
             Some e \<Rightarrow> (Inl (os_error e), s)
           | None \<Rightarrow> (Inr (), s\<lparr>files := (files s)(p \<mapsto> [])\<rparr>))"

text \<open>\<^verbatim>\<open>open(p, 'wb')\<close>: creates the file or truncates it to length zero.\<close>

definition open_wb :: "path \<Rightarrow> unit io" where
  "open_wb p s =
     (case fault s p of
        Some e \<Rightarrow> (Inl (os_error e), s)
      | None \<Rightarrow> (Inr (), s\<lparr>files := (files s)(p \<mapsto> [])\<rparr>))"

text \<open>Writing through an open handle appends to what the handle has written so far.\<close>

definition append_file :: "path \<Rightarrow> byte list \<Rightarrow> fs \<Rightarrow> fs" where
  "append_file p bs s =
     s\<lparr>files := (files s)(p \<mapsto> (case files s p of None \<Rightarrow> bs | Some old \<Rightarrow> old @ bs))\<rparr>"

text \<open>\<^verbatim>\<open>os.remove(p)\<close>.\<close>

definition os_remove :: "path \<Rightarrow> unit io" where
  "os_remove p s =
     (if \<not> exists_file s p then (Inl FileNotFoundError, s)
      else case fault s p of
             Some e \<Rightarrow> (Inl (os_error e), s)
           | None \<Rightarrow> (Inr (), s\<lparr>files := (files s)(p := None)\<rparr>))"

section \<open>Names\<close>

text \<open>
  \<^verbatim>\<open>str(dst / name)\<close> for a directory \<open>dst\<close> given without a trailing slash and a relative
  \<open>name\<close>.
\<close>

definition pjoin :: "path \<Rightarrow> string \<Rightarrow> path" where
  "pjoin dst name = dst @ ''/'' @ name"

text \<open>\<^verbatim>\<open>'{}'.format(i)\<close> for a Python integer: its decimal digits, with a sign.\<close>

fun digits :: "nat \<Rightarrow> string" where
  "digits n =
     (if n < 10 then [''0123456789'' ! n]
      else digits (n div 10) @ [''0123456789'' ! (n mod 10)])"

declare digits.simps [simp del]

definition str_int :: "int \<Rightarrow> string" where
  "str_int i = (if i < 0 then CHR ''-'' # digits (nat (- i)) else digits (nat i))"

text \<open>Text written to a file opened in text mode (ASCII).\<close>

definition encode_text :: "string \<Rightarrow> byte list" where
  "encode_text s = map (\<lambda>c. word_of_nat (of_char c)) s"

section \<open>What the module takes from outside\<close>

datatype byteorder = Little | Big

text \<open>
  The constants of \<^verbatim>\<open>sconst\<close>, the host, the OpenCV calls and the three executables are
  not part of the module; they are parameters of the model.
  \<^item> \<open>frame_name i\<close> is \<^verbatim>\<open>FRAME_NAME % i\<close> and \<open>frame_stem i\<close> is
    \<^verbatim>\<open>os.path.splitext(FRAME_NAME)[0] % i\<close>;
  \<^item> \<open>max_optflow_jobs\<close> is \<^verbatim>\<open>MAX_OPTFLOW_JOBS\<close>;
  \<^item> \<open>node\<close> is \<^verbatim>\<open>platform.node()\<close>, \<open>native\<close> the byte order \<^verbatim>\<open>tofile\<close> writes in;
  \<^item> \<open>imdecode\<close> is what \<^verbatim>\<open>cv2.imread\<close> makes of a file's bytes (\<open>None\<close> when it cannot
    decode them), \<open>bgr2gray\<close> is \<^verbatim>\<open>cv2.cvtColor(_, cv2.COLOR_BGR2GRAY)\<close> on an image, and
    \<open>calc_farneback a b\<close> is \<^verbatim>\<open>cv2.calcOpticalFlowFarneback(a, b, None, 0.5, 3, 15, 3, 5, 1.2, 0)\<close>,
    an array of \<^verbatim>\<open>float32\<close> pairs, or the exception it raises;
  \<^item> an executable is a function of its arguments (and its standard input) and the file
    system: it cannot be started (the exception \<^verbatim>\<open>subprocess\<close> raises), or it runs, changes
    files and exits with a status. \<open>deepmatching\<close> yields what it writes to its standard
    output, which is the standard input of \<open>deepflow2\<close>.
\<close>

type_synonym float32 = "32 word"

record 'a flow =
  height :: nat
  width :: nat
  vec :: "nat \<Rightarrow> nat \<Rightarrow> 'a \<times> 'a"

record 'img env =
  frame_name :: "int \<Rightarrow> string"
  frame_stem :: "int \<Rightarrow> string"
  max_optflow_jobs :: int
  node :: string
  native :: byteorder
  imdecode :: "byte list \<Rightarrow> 'img option"
  bgr2gray :: "'img \<Rightarrow> 'img"
  calc_farneback :: "'img \<Rightarrow> 'img \<Rightarrow> exn + float32 flow"
  deepmatching :: "string list \<Rightarrow> fs \<Rightarrow> exn + byte list \<times> fs"
  deepflow2 :: "string list \<Rightarrow> byte list \<Rightarrow> fs \<Rightarrow> exn + int \<times> fs"
  consistency_check :: "string list \<Rightarrow> fs \<Rightarrow> exn + int \<times> fs"

section \<open>Claiming a job\<close>

definition placeholder_path :: "'img env \<Rightarrow> path \<Rightarrow> int \<Rightarrow> path" where
  "placeholder_path env dst idx = pjoin dst (frame_stem env idx @ ''.plc'')"

definition placeholder_text :: "'img env \<Rightarrow> byte list" where
  "placeholder_text env = encode_text (''PLACEHOLDER CREATED BY '' @ node env)"

text \<open>
  \<^verbatim>\<open>claim_job(idx, frames, dst)\<close>. The pair \<^verbatim>\<open>(None, None)\<close> is \<open>None\<close>, a pair of names
  is \<open>Some\<close>. Only \<^verbatim>\<open>FileExistsError\<close> is caught.
\<close>

definition claim_job ::
  "'img env \<Rightarrow> int \<Rightarrow> string list \<Rightarrow> path \<Rightarrow> (path \<times> path) option io" where
  "claim_job env idx frames dst s =
     (let placeholder = placeholder_path env dst idx in
      case open_x placeholder s of
        (Inr _, s1) \<Rightarrow>
          (let s2 = append_file placeholder (placeholder_text env) s1;
               start_name = pjoin dst (frame_name env idx);
               end_name = pjoin dst (frame_name env (idx + 1))
           in (Inr (Some (start_name, end_name)), s2))
      | (Inl e, s1) \<Rightarrow>
          (if e = FileExistsError then (Inr None, s1) else (Inl e, s1)))"

section \<open>The flow file codec\<close>

text \<open>
  A \<^verbatim>\<open>float32\<close> is its IEEE-754 bit pattern: one sign bit, eight exponent bits, 23
  fraction bits. \<open>f32_value\<close> is the number a pattern denotes (\<open>None\<close> for an infinity or
  a NaN).
\<close>

definition f32_value :: "float32 \<Rightarrow> real option" where
  "f32_value w =
     (let sgn = (if bit w 31 then - 1 else 1);
          e = unat (take_bit 8 (drop_bit 23 w));
          m = unat (take_bit 23 w)
      in if e = 255 then None
         else if e = 0 then Some (sgn * (2 / 2 ^ 127) * (real m / 2 ^ 23))
         else Some (sgn * (2 ^ e / 2 ^ 127) * (1 + real m / 2 ^ 23)))"

text \<open>\<^verbatim>\<open>np.array(202021.25, dtype=np.float32)\<close>: the pattern of 202021.25.\<close>

definition flo_magic :: float32 where
  "flo_magic = 0x48454950"

text \<open>
  \<^verbatim>\<open>np.array(n, dtype=np.uint32)\<close> for a Python integer \<open>n\<close> that is a dimension of an
  array: NumPy refuses an integer that does not fit.
\<close>

definition to_uint32 :: "nat \<Rightarrow> exn + 32 word" where
  "to_uint32 n = (if n < 2 ^ 32 then Inr (word_of_nat n) else Inl OverflowError)"

definition le_bytes32 :: "32 word \<Rightarrow> byte list" where
  "le_bytes32 w = [ucast w, ucast (drop_bit 8 w), ucast (drop_bit 16 w), ucast (drop_bit 24 w)]"

text \<open>\<^verbatim>\<open>tofile\<close> of one 32-bit item: its four bytes in the byte order of the host.\<close>

definition tofile32 :: "byteorder \<Rightarrow> 32 word \<Rightarrow> byte list" where
  "tofile32 bo w = (case bo of Little \<Rightarrow> le_bytes32 w | Big \<Rightarrow> rev (le_bytes32 w))"

text \<open>The unsigned number that bytes denote, least significant byte first.\<close>

definition le_nat :: "byte list \<Rightarrow> nat" where
  "le_nat bs = foldr (\<lambda>b n. unat b + 256 * n) bs 0"

text \<open>
  The items of an array of shape \<open>(height, width, 2)\<close> in C order, the order in which
  \<^verbatim>\<open>tofile\<close> writes them.
\<close>

definition row_items :: "'a flow \<Rightarrow> nat \<Rightarrow> 'a list" where
  "row_items f r = concat (map (\<lambda>c. [fst (vec f r c), snd (vec f r c)]) [0..<width f])"

definition c_order :: "'a flow \<Rightarrow> 'a list" where
  "c_order f = concat (map (row_items f) [0..<height f])"

text \<open>
  \<^verbatim>\<open>write_flow(fname, flow)\<close>; \<open>astype\<close> is the conversion \<^verbatim>\<open>flow.astype(np.float32)\<close> of
  one item. An exception leaves the file with what was written before it.
\<close>

definition write_flow :: "byteorder \<Rightarrow> ('a \<Rightarrow> float32) \<Rightarrow> path \<Rightarrow> 'a flow \<Rightarrow> unit io" where
  "write_flow bo astype fname flow s =
     (case open_wb fname s of
        (Inl e, s1) \<Rightarrow> (Inl e, s1)
      | (Inr _, s1) \<Rightarrow>
          (let s2 = append_file fname (tofile32 bo flo_magic) s1 in
           case to_uint32 (width flow) of
             Inl e \<Rightarrow> (Inl e, s2)
           | Inr w \<Rightarrow>
               (let s3 = append_file fname (tofile32 bo w) s2 in
                case to_uint32 (height flow) of
                  Inl e \<Rightarrow> (Inl e, s3)
                | Inr h \<Rightarrow>
                    (let s4 = append_file fname (tofile32 bo h) s3;
                         s5 = append_file fname
                                (concat (map (\<lambda>x. tofile32 bo (astype x)) (c_order flow))) s4
                     in (Inr (), s5)))))"

section \<open>The pipeline of one job\<close>

text \<open>\<^verbatim>\<open>cv2.imread\<close> returns \<^verbatim>\<open>None\<close> for a file that is missing or cannot be decoded.\<close>

definition imread :: "'img env \<Rightarrow> path \<Rightarrow> fs \<Rightarrow> 'img option" where
  "imread env p s = (case files s p of None \<Rightarrow> None | Some bs \<Rightarrow> imdecode env bs)"

text \<open>\<^verbatim>\<open>cv2.cvtColor(img, cv2.COLOR_BGR2GRAY)\<close> raises \<^verbatim>\<open>cv2.error\<close> on \<^verbatim>\<open>None\<close>.\<close>

definition cvtColor :: "'img env \<Rightarrow> 'img option \<Rightarrow> exn + 'img" where
  "cvtColor env img = (case img of None \<Rightarrow> Inl CvError | Some i \<Rightarrow> Inr (bgr2gray env i))"

definition farneback :: "'img env \<Rightarrow> path \<Rightarrow> path \<Rightarrow> path \<Rightarrow> path \<Rightarrow> unit io" where
  "farneback env start_name end_name forward_name backward_name s =
     (case cvtColor env (imread env start_name s) of
        Inl e \<Rightarrow> (Inl e, s)
      | Inr start \<Rightarrow>
     (case cvtColor env (imread env end_name s) of
        Inl e \<Rightarrow> (Inl e, s)
      | Inr end' \<Rightarrow>
     (case calc_farneback env start end' of
        Inl e \<Rightarrow> (Inl e, s)
      | Inr forward \<Rightarrow>
     (case calc_farneback env end' start of
        Inl e \<Rightarrow> (Inl e, s)
      | Inr backward \<Rightarrow>
     (case write_flow (native env) (\<lambda>x. x) forward_name forward s of
        (Inl e, s1) \<Rightarrow> (Inl e, s1)
      | (Inr _, s1) \<Rightarrow> write_flow (native env) (\<lambda>x. x) backward_name backward s1)))))"

text \<open>
  \<^verbatim>\<open>deepflow\<close>: per direction, \<^verbatim>\<open>Popen\<close> starts the matcher and \<^verbatim>\<open>subprocess.run\<close> (without
  \<^verbatim>\<open>check=True\<close>) runs the flow program on its output. The function returns \<^verbatim>\<open>None\<close>; the
  model returns the exit statuses that \<^verbatim>\<open>subprocess.run\<close> reported and the function
  dropped, so that theorems can speak about them.
\<close>

definition deepflow :: "'img env \<Rightarrow> path \<Rightarrow> path \<Rightarrow> path \<Rightarrow> path \<Rightarrow> int list io" where
  "deepflow env start_name end_name forward_name backward_name s =
     (case deepmatching env [start_name, end_name, ''-nt'', ''0'', ''-downscale'', ''2''] s of
        Inl e \<Rightarrow> (Inl e, s)
      | Inr (forward_dm, s1) \<Rightarrow>
     (case deepflow2 env [start_name, end_name, forward_name, ''-match''] forward_dm s1 of
        Inl e \<Rightarrow> (Inl e, s1)
      | Inr (rc1, s2) \<Rightarrow>
     (case deepmatching env [end_name, start_name, ''-nt'', ''0'', ''-downscale'', ''2''] s2 of
        Inl e \<Rightarrow> (Inl e, s2)
      | Inr (backward_dm, s3) \<Rightarrow>
     (case deepflow2 env [end_name, start_name, backward_name, ''-match''] backward_dm s3 of
        Inl e \<Rightarrow> (Inl e, s3)
      | Inr (rc2, s4) \<Rightarrow> (Inr [rc1, rc2], s4)))))"

definition forward_name :: "path \<Rightarrow> int \<Rightarrow> path" where
  "forward_name dst idx =
     pjoin dst (''forward_'' @ str_int idx @ ''_'' @ str_int (idx + 1) @ ''.flo'')"

definition backward_name :: "path \<Rightarrow> int \<Rightarrow> path" where
  "backward_name dst idx =
     pjoin dst (''backward_'' @ str_int (idx + 1) @ ''_'' @ str_int idx @ ''.flo'')"

definition reliable_name :: "path \<Rightarrow> int \<Rightarrow> path" where
  "reliable_name dst idx =
     pjoin dst (''reliable_'' @ str_int (idx + 1) @ ''_'' @ str_int idx @ ''.pgm'')"

text \<open>
  The flow backend of \<^verbatim>\<open>run_job\<close>: \<^verbatim>\<open>farneback\<close> runs no process, \<^verbatim>\<open>deepflow\<close> two that
  are waited for.
\<close>

definition backend :: "'img env \<Rightarrow> bool \<Rightarrow> path \<Rightarrow> path \<Rightarrow> path \<Rightarrow> path \<Rightarrow> int list io" where
  "backend env fast start_name end_name fwd bwd s =
     (if fast
      then (case farneback env start_name end_name fwd bwd s of
              (Inl e, s1) \<Rightarrow> (Inl e, s1)
            | (Inr _, s1) \<Rightarrow> (Inr [], s1))
      else deepflow env start_name end_name fwd bwd s)"

text \<open>
  \<^verbatim>\<open>run_job(idx, start_name, end_name, dst, fast)\<close>. The consistency check is run without
  \<^verbatim>\<open>check=True\<close> too. A normal return is \<open>Inr\<close> of the exit statuses of the processes the
  job waited for, in order.
\<close>

definition run_job :: "'img env \<Rightarrow> int \<Rightarrow> path \<Rightarrow> path \<Rightarrow> path \<Rightarrow> bool \<Rightarrow> int list io" where
  "run_job env idx start_name end_name dst fast s =
     (case backend env fast start_name end_name (forward_name dst idx) (backward_name dst idx) s of
        (Inl e, s1) \<Rightarrow> (Inl e, s1)
      | (Inr rcs, s1) \<Rightarrow>
     (case consistency_check env
             [backward_name dst idx, forward_name dst idx, reliable_name dst idx, end_name] s1 of
        Inl e \<Rightarrow> (Inl e, s1)
      | Inr (rc, s2) \<Rightarrow>
     (case os_remove (forward_name dst idx) s2 of
        (Inl e, s3) \<Rightarrow> (Inl e, s3)
      | (Inr _, s3) \<Rightarrow> (Inr (rcs @ [rc]), s3))))"

section \<open>The worker pool\<close>

text \<open>
  \<^verbatim>\<open>optflow(start, frames, dst, fast)\<close> runs one coordinating thread and the threads it
  starts, next to whatever else works on the shared directory. The model is a machine
  whose steps are scheduled from outside:
  \<^item> \<open>Coord\<close> is the next step of the coordinating thread;
  \<^item> \<open>Finish t\<close> lets thread \<open>t\<close> run its \<^verbatim>\<open>run_job\<close> to its end (its file operations are
    taken as one step: nothing below depends on how they interleave);
  \<^item> \<open>Env g\<close> is any change \<open>g\<close> of the directory by another worker.
  An event that cannot happen in a state (a thread that has ended, a coordinator blocked
  in \<^verbatim>\<open>join\<close>) leaves the state as it is.
\<close>

datatype tstatus = Alive | Ended "exn + int list"

record thread =
  job :: int
  job_start :: path
  job_end :: path
  status :: tstatus

text \<open>
  Where the coordinator stands: at the head of the \<^verbatim>\<open>for\<close> loop with the indices still
  to visit (testing the \<^verbatim>\<open>while\<close> condition when there is one), before the call of
  \<^verbatim>\<open>claim_job\<close>, at the \<open>k\<close>-th \<^verbatim>\<open>join\<close>, after its return, or after an exception.
\<close>

datatype pc = Loop "int list" | Claim int "int list" | Join nat | Returned | Raised exn

text \<open>
  \<open>running\<close> is the list of that name (threads by their number in \<open>threads\<close>); \<open>attempts\<close>
  records the indices \<^verbatim>\<open>claim_job\<close> was called with, in order.
\<close>

record pool =
  pc :: pc
  running :: "nat list"
  threads :: "thread list"
  disk :: fs
  attempts :: "int list"

datatype event = Coord | Finish nat | Env "fs \<Rightarrow> fs"

text \<open>\<^verbatim>\<open>thread.isAlive()\<close> (the name of \<^verbatim>\<open>is_alive\<close> before Python 3.9).\<close>

definition isAlive :: "pool \<Rightarrow> nat \<Rightarrow> bool" where
  "isAlive p t \<longleftrightarrow> t < length (threads p) \<and> status (threads p ! t) = Alive"

text \<open>The number of pipeline executions that have started and not ended.\<close>

definition active :: "pool \<Rightarrow> nat" where
  "active p = length (filter (\<lambda>th. status th = Alive) (threads p))"

text \<open>\<^verbatim>\<open>range(start, start + len(frames) - 1)\<close>.\<close>

definition job_range :: "int \<Rightarrow> string list \<Rightarrow> int list" where
  "job_range start frames = [start .. start + int (length frames) - 2]"

definition init_pool :: "int \<Rightarrow> string list \<Rightarrow> fs \<Rightarrow> pool" where
  "init_pool start frames s =
     \<lparr>pc = Loop (job_range start frames), running = [], threads = [], disk = s, attempts = []\<rparr>"

text \<open>
  \<^verbatim>\<open>running.append(threading.Thread(target=run_job, args=...)); running[-1].start()\<close>.
\<close>

definition spawn :: "int \<Rightarrow> path \<Rightarrow> path \<Rightarrow> pool \<Rightarrow> pool" where
  "spawn j start_name end_name p =
     p\<lparr>running := running p @ [length (threads p)],
       threads := threads p @ [\<lparr>job = j, job_start = start_name, job_end = end_name, status = Alive\<rparr>]\<rparr>"

definition coord_step :: "'img env \<Rightarrow> string list \<Rightarrow> path \<Rightarrow> pool \<Rightarrow> pool" where
  "coord_step env frames dst p =
     (case pc p of
        Loop [] \<Rightarrow> p\<lparr>pc := Join 0\<rparr>
      | Loop (idx # rest) \<Rightarrow>
          (if int (length (running p)) \<ge> max_optflow_jobs env
           then p\<lparr>running := filter (isAlive p) (running p)\<rparr>
           else p\<lparr>pc := Claim idx rest\<rparr>)
      | Claim idx rest \<Rightarrow>
          (case claim_job env (idx + 1) frames dst (disk p) of
             (Inl e, s) \<Rightarrow> p\<lparr>pc := Raised e, disk := s, attempts := attempts p @ [idx + 1]\<rparr>
           | (Inr None, s) \<Rightarrow> p\<lparr>pc := Loop rest, disk := s, attempts := attempts p @ [idx + 1]\<rparr>
           | (Inr (Some (start_name, end_name)), s) \<Rightarrow>
               (let p1 = p\<lparr>pc := Loop rest, disk := s, attempts := attempts p @ [idx + 1]\<rparr>
                in if start_name \<noteq> [] then spawn (idx + 1) start_name end_name p1 else p1))
      | Join k \<Rightarrow>
          (if k < length (running p)
           then (if isAlive p (running p ! k) then p else p\<lparr>pc := Join (Suc k)\<rparr>)
           else p\<lparr>pc := Returned\<rparr>)
      | Returned \<Rightarrow> p
      | Raised e \<Rightarrow> p)"

text \<open>
  A thread runs \<^verbatim>\<open>run_job\<close> with the arguments it was created with; an exception ends
  this thread and no other.
\<close>

definition finish_step :: "'img env \<Rightarrow> path \<Rightarrow> bool \<Rightarrow> nat \<Rightarrow> pool \<Rightarrow> pool" where
  "finish_step env dst fast t p =
     (if isAlive p t
      then (let th = threads p ! t;
                (r, s) = run_job env (job th) (job_start th) (job_end th) dst fast (disk p)
            in p\<lparr>threads := (threads p)[t := th\<lparr>status := Ended r\<rparr>], disk := s\<rparr>)
      else p)"

fun pool_step :: "'img env \<Rightarrow> string list \<Rightarrow> path \<Rightarrow> bool \<Rightarrow> event \<Rightarrow> pool \<Rightarrow> pool" where
  "pool_step env frames dst fast Coord p = coord_step env frames dst p"
| "pool_step env frames dst fast (Finish t) p = finish_step env dst fast t p"
| "pool_step env frames dst fast (Env g) p = p\<lparr>disk := g (disk p)\<rparr>"

fun pool_run :: "'img env \<Rightarrow> string list \<Rightarrow> path \<Rightarrow> bool \<Rightarrow> event list \<Rightarrow> pool \<Rightarrow> pool" where
  "pool_run env frames dst fast [] p = p"
| "pool_run env frames dst fast (e # es) p =
     pool_run env frames dst fast es (pool_step env frames dst fast e p)"

text \<open>
  The state of \<^verbatim>\<open>optflow(start, frames, dst, fast)\<close>, called on the directory \<open>s\<close>, after
  the events \<open>es\<close>.
\<close>

definition optflow ::
  "'img env \<Rightarrow> int \<Rightarrow> string list \<Rightarrow> path \<Rightarrow> bool \<Rightarrow> fs \<Rightarrow> event list \<Rightarrow> pool" where
  "optflow env start frames dst fast s es =
     pool_run env frames dst fast es (init_pool start frames s)"

text \<open>What the other workers alone did to the directory during the events \<open>es\<close>.\<close>

fun env_only :: "event list \<Rightarrow> fs \<Rightarrow> fs" where
  "env_only [] s = s"
| "env_only (Env g # es) s = env_only es (g s)"
| "env_only (e # es) s = env_only es s"

section \<open>Claimants racing for one index\<close>

text \<open>
  Several calls of \<^verbatim>\<open>claim_job\<close> for the same index and directory, by threads or by
  processes, each with its own host name and \<^verbatim>\<open>frames\<close> argument. A call is two steps on
  the shared directory, the exclusive create and then the write of the marker text with
  the return; a schedule names the claimant that moves next.
\<close>

datatype cpc = Start | Opened | Done "(path \<times> path) option" | Failed exn

record race =
  cpcs :: "cpc list"
  rdisk :: fs

definition claim_step :: "'img env \<Rightarrow> int \<Rightarrow> path \<Rightarrow> cpc \<Rightarrow> fs \<Rightarrow> cpc \<times> fs" where
  "claim_step env idx dst c s =
     (let placeholder = placeholder_path env dst idx in
      case c of
        Start \<Rightarrow>
          (case open_x placeholder s of
             (Inr _, s1) \<Rightarrow> (Opened, s1)
           | (Inl e, s1) \<Rightarrow> (if e = FileExistsError then (Done None, s1) else (Failed e, s1)))
      | Opened \<Rightarrow>
          (Done (Some (pjoin dst (frame_name env idx), pjoin dst (frame_name env (idx + 1)))),
           append_file placeholder (placeholder_text env) s)
      | _ \<Rightarrow> (c, s))"

definition race_step :: "'img env list \<Rightarrow> int \<Rightarrow> path \<Rightarrow> nat \<Rightarrow> race \<Rightarrow> race" where
  "race_step envs idx dst i r =
     (if i < length (cpcs r) \<and> i < length envs
      then (let (c, s) = claim_step (envs ! i) idx dst (cpcs r ! i) (rdisk r)
            in \<lparr>cpcs = (cpcs r)[i := c], rdisk = s\<rparr>)
      else r)"

fun race_run :: "'img env list \<Rightarrow> int \<Rightarrow> path \<Rightarrow> nat list \<Rightarrow> race \<Rightarrow> race" where
  "race_run envs idx dst [] r = r"
| "race_run envs idx dst (i # sched) r = race_run envs idx dst sched (race_step envs idx dst i r)"

definition init_race :: "'img env list \<Rightarrow> fs \<Rightarrow> race" where
  "init_race envs s = \<lparr>cpcs = map (\<lambda>_. Start) envs, rdisk = s\<rparr>"

text \<open>A claimant has succeeded once its exclusive create went through.\<close>

fun succeeded :: "cpc \<Rightarrow> bool" where
  "succeeded Opened = True"
| "succeeded (Done (Some _)) = True"
| "succeeded _ = False"

fun finished :: "cpc \<Rightarrow> bool" where
  "finished Start = False"
| "finished Opened = False"
| "finished _ = True"

section \<open>What is assumed of the external programs\<close>

text \<open>\<open>keeps s s'\<close>: every file of \<open>s\<close> is still there in \<open>s'\<close>.\<close>

definition keeps :: "fs \<Rightarrow> fs \<Rightarrow> bool" where
  "keeps s s' \<longleftrightarrow> (\<forall>p. exists_file s p \<longrightarrow> exists_file s' p)"

text \<open>
  The programs are honest when they remove no file and an exit status of zero means that
  the output file named on the command line has been written.
\<close>

definition honest_tools :: "'img env \<Rightarrow> bool" where
  "honest_tools env \<longleftrightarrow>
     (\<forall>args s out s'. deepmatching env args s = Inr (out, s') \<longrightarrow> keeps s s') \<and>
     (\<forall>a b out rest inp s rc s'.
        deepflow2 env (a # b # out # rest) inp s = Inr (rc, s') \<longrightarrow>
          keeps s s' \<and> (rc = 0 \<longrightarrow> exists_file s' out)) \<and>
     (\<forall>b f r e s rc s'.
        consistency_check env [b, f, r, e] s = Inr (rc, s') \<longrightarrow>
          keeps s s' \<and> (rc = 0 \<longrightarrow> exists_file s' r))"

text \<open>
  The programs need their inputs when a run with a missing input file (one of the two
  frames for the matcher and the flow program; the two flow files or the frame for the
  consistency check) leaves the directory as it is.
\<close>

definition need_inputs :: "'img env \<Rightarrow> bool" where
  "need_inputs env \<longleftrightarrow>
     (\<forall>a b rest s out s'.
        (\<not> exists_file s a \<or> \<not> exists_file s b) \<and>
        deepmatching env (a # b # rest) s = Inr (out, s') \<longrightarrow> s' = s) \<and>
     (\<forall>a b rest inp s rc s'.
        (\<not> exists_file s a \<or> \<not> exists_file s b) \<and>
        deepflow2 env (a # b # rest) inp s = Inr (rc, s') \<longrightarrow> s' = s) \<and>
     (\<forall>b f r e s rc s'.
        (\<not> exists_file s b \<or> \<not> exists_file s f \<or> \<not> exists_file s e) \<and>
        consistency_check env [b, f, r, e] s = Inr (rc, s') \<longrightarrow> s' = s)"

section \<open>Invariants of the pool\<close>

text \<open>
  Every thread that is alive is in \<open>running\<close>; \<open>running\<close> never holds more than
  \<^verbatim>\<open>MAX_OPTFLOW_JOBS\<close> threads, and fewer when \<^verbatim>\<open>claim_job\<close> is about to be called.
\<close>

definition inv_run :: "pool \<Rightarrow> bool" where
  "inv_run p \<longleftrightarrow> (\<forall>t. isAlive p t \<longrightarrow> t \<in> set (running p))"

definition inv_cap :: "'img env \<Rightarrow> pool \<Rightarrow> bool" where
  "inv_cap env p \<longleftrightarrow>
     int (length (running p)) \<le> max_optflow_jobs env \<and>
     (\<forall>idx rest. pc p = Claim idx rest \<longrightarrow> int (length (running p)) < max_optflow_jobs env)"

text \<open>
  The indices the loop has still to visit; the indices claimed so far followed by these
  (shifted by one) are all the indices of the loop. The threads joined so far have ended.
\<close>

definition pending :: "pc \<Rightarrow> int list option" where
  "pending c =
     (case c of
        Loop idxs \<Rightarrow> Some idxs
      | Claim idx rest \<Rightarrow> Some (idx # rest)
      | Join k \<Rightarrow> Some []
      | Returned \<Rightarrow> Some []
      | Raised e \<Rightarrow> None)"

definition inv_log :: "int list \<Rightarrow> pool \<Rightarrow> bool" where
  "inv_log todo p \<longleftrightarrow>
     (case pending (pc p) of
        Some idxs \<Rightarrow> attempts p @ map (\<lambda>i. i + 1) idxs = map (\<lambda>i. i + 1) todo
      | None \<Rightarrow> (\<exists>later. attempts p @ later = map (\<lambda>i. i + 1) todo))"

definition inv_join :: "pool \<Rightarrow> bool" where
  "inv_join p \<longleftrightarrow>
     (\<forall>k. pc p = Join k \<longrightarrow> (\<forall>j<k. j < length (running p) \<longrightarrow> \<not> isAlive p (running p ! j))) \<and>
     (pc p = Returned \<longrightarrow> (\<forall>t\<in>set (running p). \<not> isAlive p t))"

text \<open>The coordinator has stopped: \<^verbatim>\<open>optflow\<close> has returned or raised.\<close>

definition stopped :: "pc \<Rightarrow> bool" where
  "stopped c \<longleftrightarrow> c = Returned \<or> (\<exists>e. c = Raised e)"

section \<open>The invariant of a race\<close>

text \<open>
  The state of a race for index \<open>idx\<close> in \<open>dst\<close>, started on the directory \<open>s\<close>, after the
  schedule \<open>sched\<close>.
\<close>

definition race_after :: "'img env list \<Rightarrow> int \<Rightarrow> path \<Rightarrow> fs \<Rightarrow> nat list \<Rightarrow> race" where
  "race_after envs idx dst s sched = race_run envs idx dst sched (init_race envs s)"

text \<open>
  A claimant is quiet when it has not attempted its create or has returned "no job". The
  invariant of a race for the placeholder \<open>P\<close> among \<open>n\<close> claimants, started on \<open>s0\<close>: the
  faults are those of \<open>s0\<close> and a placeholder of \<open>s0\<close> is still there; a claimant that has
  succeeded has created the placeholder, which \<open>s0\<close> did not have, and all others are
  quiet; as long as the placeholder is missing and can be created nobody has moved; and a
  placeholder that \<open>s0\<close> did not have was created by a claimant.
\<close>

definition quiet :: "cpc \<Rightarrow> bool" where
  "quiet c \<longleftrightarrow> c = Start \<or> c = Done None"

definition race_inv :: "path \<Rightarrow> nat \<Rightarrow> fs \<Rightarrow> race \<Rightarrow> bool" where
  "race_inv P n s0 r \<longleftrightarrow>
     length (cpcs r) = n \<and>
     fault (rdisk r) = fault s0 \<and>
     (exists_file s0 P \<longrightarrow> exists_file (rdisk r) P) \<and>
     (\<forall>i<n. succeeded (cpcs r ! i) \<longrightarrow>
        exists_file (rdisk r) P \<and> \<not> exists_file s0 P \<and>
        (\<forall>j<n. j \<noteq> i \<longrightarrow> quiet (cpcs r ! j))) \<and>
     (\<not> exists_file (rdisk r) P \<and> fault s0 P = None \<longrightarrow> (\<forall>i<n. cpcs r ! i = Start)) \<and>
     (exists_file (rdisk r) P \<and> \<not> exists_file s0 P \<longrightarrow> (\<exists>i<n. succeeded (cpcs r ! i)))"

section \<open>A small worker and directory\<close>

text \<open>
  A concrete instance on which the definitions can be evaluated: frames named
  \<^verbatim>\<open>frame_%d.ppm\<close>, a flow program and a consistency check that write their output file
  when their input files exist and exit with status 1 otherwise, and a directory \<^verbatim>\<open>d\<close>
  with two frames.
\<close>

definition toy_flow2 :: "string list \<Rightarrow> byte list \<Rightarrow> fs \<Rightarrow> exn + int \<times> fs" where
  "toy_flow2 args inp s =
     (case args of
        a # b # out # rest \<Rightarrow>
          (if exists_file s a \<and> exists_file s b
           then Inr (0, s\<lparr>files := (files s)(out \<mapsto> inp)\<rparr>)
           else Inr (1, s))
      | _ \<Rightarrow> Inr (2, s))"

definition toy_check :: "string list \<Rightarrow> fs \<Rightarrow> exn + int \<times> fs" where
  "toy_check args s =
     (case args of
        [b, f, r, e] \<Rightarrow>
          (if exists_file s b \<and> exists_file s f \<and> exists_file s e
           then Inr (0, s\<lparr>files := (files s)(r \<mapsto> [])\<rparr>)
           else Inr (1, s))
      | _ \<Rightarrow> Inr (2, s))"

definition toy_env :: "byte list env" where
  "toy_env =
     \<lparr>frame_name = (\<lambda>i. ''frame_'' @ str_int i @ ''.ppm''),
      frame_stem = (\<lambda>i. ''frame_'' @ str_int i),
      max_optflow_jobs = 2,
      node = ''host'',
      native = Little,
      imdecode = Some,
      bgr2gray = (\<lambda>i. i),
      calc_farneback = (\<lambda>a b. Inr \<lparr>height = 1, width = 1, vec = (\<lambda>r c. (0, 0))\<rparr>),
      deepmatching = (\<lambda>args s. Inr ([], s)),
      deepflow2 = toy_flow2,
      consistency_check = toy_check\<rparr>"

definition toy_dir :: fs where
  "toy_dir = \<lparr>files = [''d/frame_1.ppm'' \<mapsto> [1], ''d/frame_2.ppm'' \<mapsto> [2]], fault = Map.empty\<rparr>"

definition claimed_dir :: fs where
  "claimed_dir = toy_dir\<lparr>files := (files toy_dir)(''d/frame_1.plc'' \<mapsto> placeholder_text toy_env)\<rparr>"

definition readonly_dir :: fs where
  "readonly_dir = toy_dir\<lparr>fault := (\<lambda>p. Some EACCES)\<rparr>"

definition toy_flow :: "float32 flow" where
  "toy_flow = \<lparr>height = 1, width = 2, vec = (\<lambda>r c. (word_of_nat c, 0x3F800000))\<rparr>"

text \<open>The same worker with a consistency check that fails: status 1, nothing written.\<close>

definition sloppy_env :: "byte list env" where
  "sloppy_env = toy_env\<lparr>consistency_check := (\<lambda>args s. Inr (1, s))\<rparr>"

text \<open>The directory without its second frame, and with a forward file that cannot be written.\<close>

definition short_dir :: fs where
  "short_dir = \<lparr>files = [''d/frame_1.ppm'' \<mapsto> [1]], fault = Map.empty\<rparr>"

definition locked_dir :: fs where
  "locked_dir = toy_dir\<lparr>fault := [''d/forward_1_2.flo'' \<mapsto> ENOSPC]\<rparr>"

text \<open>The worker with a consistency check that cannot be started.\<close>

definition stranded_env :: "byte list env" where
  "stranded_env = toy_env\<lparr>consistency_check := (\<lambda>args s. Inl FileNotFoundError)\<rparr>"

text \<open>A pool that waits for its one thread, job 1 on the directory without the second frame.\<close>

definition toy_pool :: pool where
  "toy_pool =
     \<lparr>pc = Join 0, running = [0],
      threads = [\<lparr>job = 1, job_start = ''d/frame_1.ppm'', job_end = ''d/frame_2.ppm'', status = Alive\<rparr>],
      disk = short_dir, attempts = [1]\<rparr>"

text \<open>
  The flow file of the one-pixel zero field that the example's OpenCV computes, and the
  directory after both flow files have been written.
\<close>

definition toy_flo :: "byte list" where
  "toy_flo = [0x50, 0x49, 0x45, 0x48,  1, 0, 0, 0,  1, 0, 0, 0,  0, 0, 0, 0,  0, 0, 0, 0]"

definition toy_written :: fs where
  "toy_written =
     toy_dir\<lparr>files := (files toy_dir)(''d/forward_1_2.flo'' \<mapsto> toy_flo, ''d/backward_2_1.flo'' \<mapsto> toy_flo)\<rparr>"

text \<open>The directory without its second frame, after job 1 has been claimed.\<close>

definition short_claimed :: fs where
  "short_claimed = short_dir\<lparr>files := (files short_dir)(''d/frame_1.plc'' \<mapsto> placeholder_text toy_env)\<rparr>"

text \<open>
  Four frames and the pool after two claims, and the pool that has returned from one job
  on the directory without the second frame.
\<close>

definition four_frames :: "string list" where
  "four_frames = [''frame_1.ppm'', ''frame_2.ppm'', ''frame_3.ppm'', ''frame_4.ppm'']"

definition claimed2_dir :: fs where
  "claimed2_dir = claimed_dir\<lparr>files := (files claimed_dir)(''d/frame_2.plc'' \<mapsto> placeholder_text toy_env)\<rparr>"

definition busy_pool :: pool where
  "busy_pool =
     \<lparr>pc = Loop [2], running = [0, 1],
      threads = [\<lparr>job = 1, job_start = ''d/frame_1.ppm'', job_end = ''d/frame_2.ppm'', status = Alive\<rparr>,
                 \<lparr>job = 2, job_start = ''d/frame_2.ppm'', job_end = ''d/frame_3.ppm'', status = Alive\<rparr>],
      disk = claimed2_dir,
      attempts = [1, 2]\<rparr>"

definition done_pool :: pool where
  "done_pool =
     \<lparr>pc = Returned, running = [0],
      threads = [\<lparr>job = 1, job_start = ''d/frame_1.ppm'', job_end = ''d/frame_2.ppm'',
                   status = Ended (Inl CvError)\<rparr>],
      disk = short_claimed, attempts = [1]\<rparr>"

text \<open>Three workers on three hosts.\<close>

definition rivals :: "byte list env list" where
  "rivals = [toy_env, toy_env\<lparr>node := ''second''\<rparr>, toy_env\<lparr>node := ''third''\<rparr>]"

section \<open>Evaluation\<close>

text \<open>Facts to unfold when names and the example are evaluated.\<close>

lemmas names_defs =
  forward_name_def backward_name_def reliable_name_def pjoin_def str_int_def digits.simps
  placeholder_path_def

lemmas toy_defs = toy_env_def toy_dir_def toy_check_def toy_flow2_def

section \<open>Names are distinct\<close>

lemma forward_not_backward: "forward_name dst i \<noteq> backward_name dst j"
  by (simp add: forward_name_def backward_name_def pjoin_def)

lemma forward_not_reliable: "forward_name dst i \<noteq> reliable_name dst j"
  by (simp add: forward_name_def reliable_name_def pjoin_def)

lemma backward_not_reliable: "backward_name dst i \<noteq> reliable_name dst j"
  by (simp add: backward_name_def reliable_name_def pjoin_def)

lemma last_differs: "last a \<noteq> last b \<Longrightarrow> a \<noteq> b"
  by auto

lemma placeholder_not_forward: "placeholder_path env dst i \<noteq> forward_name dst j"
  by (rule last_differs) (simp add: placeholder_path_def forward_name_def pjoin_def)

lemma placeholder_not_backward: "placeholder_path env dst i \<noteq> backward_name dst j"
  by (rule last_differs) (simp add: placeholder_path_def backward_name_def pjoin_def)

lemma placeholder_not_reliable: "placeholder_path env dst i \<noteq> reliable_name dst j"
  by (rule last_differs) (simp add: placeholder_path_def reliable_name_def pjoin_def)

section \<open>Claiming: an index that is taken, and the frames argument\<close>

lemma claim_job_exists:
  "exists_file s (placeholder_path env dst idx) \<Longrightarrow> claim_job env idx frames dst s = (Inr None, s)"
  by (simp add: claim_job_def open_x_def)

lemma claim_job_success_iff:
  "(\<exists>names. claim_job env idx frames dst s = (Inr (Some names), s')) \<longleftrightarrow>
     \<not> exists_file s (placeholder_path env dst idx) \<and> fault s (placeholder_path env dst idx) = None \<and>
     s' = s\<lparr>files := (files s)(placeholder_path env dst idx \<mapsto> placeholder_text env)\<rparr>"
  by (auto simp add: claim_job_def open_x_def Let_def append_file_def split: option.splits)

lemma claim_job_creates:
  "claim_job env idx frames dst s = (Inr (Some names), s') \<Longrightarrow>
     exists_file s' (placeholder_path env dst idx)"
  using claim_job_success_iff [of env idx frames dst s s']
  by (auto simp: exists_file_def)

lemma os_error_not_exists: "os_error e \<noteq> FileExistsError"
  by (cases e) simp_all

lemma claim_job_fault:
  assumes "\<not> exists_file s (placeholder_path env dst idx)"
    and "fault s (placeholder_path env dst idx) = Some e"
  shows "claim_job env idx frames dst s = (Inl (os_error e), s)"
  using assms by (simp add: claim_job_def open_x_def os_error_not_exists)

text \<open>
  Claim C2. When the placeholder of an index exists, \<^verbatim>\<open>claim_job\<close> returns "no job"
  (\<open>Inr None\<close>: no exception) and leaves the directory as it is; after a claim that
  succeeded, a further claim of the same index, by any worker that forms the placeholder
  name in the same way and with any frames argument, returns "no job"; and when the
  placeholder does not exist and the file system refuses to create it, the refusal is
  raised as an exception, which is neither \<^verbatim>\<open>FileExistsError\<close> nor the "no job" result.
\<close>

theorem claim_job_already_claimed:
  "(exists_file s (placeholder_path env dst idx) \<longrightarrow>
      claim_job env idx frames dst s = (Inr None, s)) \<and>
   (claim_job env idx frames dst s = (Inr (Some names), s') \<and> frame_stem env' = frame_stem env \<longrightarrow>
      claim_job env' idx frames' dst s' = (Inr None, s')) \<and>
   (\<not> exists_file s (placeholder_path env dst idx) \<and> fault s (placeholder_path env dst idx) = Some e \<longrightarrow>
      claim_job env idx frames dst s = (Inl (os_error e), s) \<and> os_error e \<noteq> FileExistsError)"
proof (intro conjI impI)
  assume "exists_file s (placeholder_path env dst idx)"
  then show "claim_job env idx frames dst s = (Inr None, s)"
    by (rule claim_job_exists)
next
  assume a: "claim_job env idx frames dst s = (Inr (Some names), s') \<and> frame_stem env' = frame_stem env"
  then have "exists_file s' (placeholder_path env dst idx)"
    by (blast intro: claim_job_creates)
  moreover from a have "placeholder_path env' dst idx = placeholder_path env dst idx"
    by (simp add: placeholder_path_def)
  ultimately show "claim_job env' idx frames' dst s' = (Inr None, s')"
    by (simp add: claim_job_exists)
next
  assume a: "\<not> exists_file s (placeholder_path env dst idx) \<and> fault s (placeholder_path env dst idx) = Some e"
  then show "claim_job env idx frames dst s = (Inl (os_error e), s)"
    by (simp add: claim_job_fault)
  show "os_error e \<noteq> FileExistsError"
    by (rule os_error_not_exists)
qed

lemma toy_names:
  "placeholder_path toy_env ''d'' 1 = ''d/frame_1.plc''"
  "pjoin ''d'' (frame_name toy_env 1) = ''d/frame_1.ppm''"
  "pjoin ''d'' (frame_name toy_env 2) = ''d/frame_2.ppm''"
  by (simp_all add: names_defs toy_env_def)

lemma toy_claim:
  "claim_job toy_env 1 frames ''d'' toy_dir =
     (Inr (Some (''d/frame_1.ppm'', ''d/frame_2.ppm'')), claimed_dir)"
  by (simp add: claim_job_def toy_names open_x_def exists_file_def append_file_def claimed_dir_def
        Let_def toy_dir_def)

theorem claim_job_already_claimed_witness:
  "claim_job toy_env 1 [] ''d'' toy_dir = (Inr (Some (''d/frame_1.ppm'', ''d/frame_2.ppm'')), claimed_dir) \<and>
   exists_file claimed_dir (placeholder_path toy_env ''d'' 1) \<and>
   claim_job toy_env 1 [''a'', ''b''] ''d'' claimed_dir = (Inr None, claimed_dir) \<and>
   \<not> exists_file readonly_dir (placeholder_path toy_env ''d'' 1) \<and>
   fault readonly_dir (placeholder_path toy_env ''d'' 1) = Some EACCES \<and>
   claim_job toy_env 1 [] ''d'' readonly_dir = (Inl PermissionError, readonly_dir)"
proof -
  have c: "claim_job toy_env 1 [] ''d'' toy_dir = (Inr (Some (''d/frame_1.ppm'', ''d/frame_2.ppm'')), claimed_dir)"
    by (rule toy_claim)
  have e: "exists_file claimed_dir (placeholder_path toy_env ''d'' 1)"
    by (simp add: toy_names claimed_dir_def exists_file_def)
  have r: "\<not> exists_file readonly_dir (placeholder_path toy_env ''d'' 1) \<and>
     fault readonly_dir (placeholder_path toy_env ''d'' 1) = Some EACCES"
    by (simp add: toy_names readonly_dir_def toy_dir_def exists_file_def)
  from c e r
    claim_job_already_claimed [where s = toy_dir and env = toy_env and dst = "''d''" and idx = 1
      and frames = "[]" and names = "(''d/frame_1.ppm'', ''d/frame_2.ppm'')" and s' = claimed_dir
      and env' = toy_env and frames' = "[''a'', ''b'']" and e = EACCES]
    claim_job_already_claimed [where s = readonly_dir and env = toy_env and dst = "''d''" and idx = 1
      and frames = "[]" and names = "(''d/frame_1.ppm'', ''d/frame_2.ppm'')" and s' = claimed_dir
      and env' = toy_env and frames' = "[''a'', ''b'']" and e = EACCES]
  show ?thesis by simp
qed

text \<open>
  Claim C9. The frames argument has no influence: from the same directory, two calls that
  differ in it only return the same result and leave the same directory. The outcome is
  decided by the placeholder alone: on two directories that agree on whether it exists
  and on how its path can be created, the results agree.
\<close>

theorem claim_job_ignores_frames:
  "claim_job env idx fa dst s = claim_job env idx fb dst s \<and>
   (exists_file s (placeholder_path env dst idx) = exists_file t (placeholder_path env dst idx) \<and>
    fault s (placeholder_path env dst idx) = fault t (placeholder_path env dst idx) \<longrightarrow>
      fst (claim_job env idx fa dst s) = fst (claim_job env idx fb dst t))"
  by (simp add: claim_job_def open_x_def Let_def split: option.splits)

theorem claim_job_ignores_frames_witness:
  "claim_job toy_env 1 [] ''d'' toy_dir = claim_job toy_env 1 [''x'', ''y'', ''z''] ''d'' toy_dir \<and>
   exists_file claimed_dir (placeholder_path toy_env ''d'' 1) \<and>
   exists_file (claimed_dir\<lparr>files := (files claimed_dir)(''q'' \<mapsto> [])\<rparr>) (placeholder_path toy_env ''d'' 1) \<and>
   fst (claim_job toy_env 1 [] ''d'' claimed_dir) =
     fst (claim_job toy_env 1 [''x''] ''d'' (claimed_dir\<lparr>files := (files claimed_dir)(''q'' \<mapsto> [])\<rparr>))"
proof -
  have e: "exists_file claimed_dir (placeholder_path toy_env ''d'' 1)"
    by (simp add: toy_names claimed_dir_def exists_file_def)
  have e': "exists_file (claimed_dir\<lparr>files := (files claimed_dir)(''q'' \<mapsto> [])\<rparr>)
      (placeholder_path toy_env ''d'' 1)"
    by (simp add: toy_names claimed_dir_def exists_file_def)
  have f: "fault claimed_dir (placeholder_path toy_env ''d'' 1) =
      fault (claimed_dir\<lparr>files := (files claimed_dir)(''q'' \<mapsto> [])\<rparr>) (placeholder_path toy_env ''d'' 1)"
    by simp
  have 1: "claim_job toy_env 1 [] ''d'' toy_dir = claim_job toy_env 1 [''x'', ''y'', ''z''] ''d'' toy_dir"
    using claim_job_ignores_frames [where env = toy_env and idx = 1 and dst = "''d''" and s = toy_dir
      and fa = "[]" and fb = "[''x'', ''y'', ''z'']" and t = toy_dir]
    by (rule conjunct1)
  have 2: "fst (claim_job toy_env 1 [] ''d'' claimed_dir) =
     fst (claim_job toy_env 1 [''x''] ''d'' (claimed_dir\<lparr>files := (files claimed_dir)(''q'' \<mapsto> [])\<rparr>))"
    using e e' f claim_job_ignores_frames [where env = toy_env and idx = 1 and dst = "''d''"
      and s = claimed_dir and fa = "[]" and fb = "[''x'']"
      and t = "claimed_dir\<lparr>files := (files claimed_dir)(''q'' \<mapsto> [])\<rparr>"]
    by blast
  from e e' 1 2 show ?thesis by blast
qed

section \<open>The flow file\<close>

lemma length_tofile32: "length (tofile32 bo w) = 4"
  by (cases bo) (simp_all add: tofile32_def le_bytes32_def)

lemma flo_magic_value: "f32_value flo_magic = Some 202021.25"
  by (simp add: f32_value_def flo_magic_def)

lemma unat_to_uint32: "to_uint32 n = Inr w \<Longrightarrow> unat w = n"
  by (auto simp add: to_uint32_def of_nat_inverse split: if_splits)

lemma length_concat_blocks:
  "\<forall>x\<in>set xs. length (f x) = k \<Longrightarrow> length (concat (map f xs)) = length xs * k"
  by (induction xs) simp_all

lemma nth_concat_blocks:
  "\<forall>x\<in>set xs. length (f x) = k \<Longrightarrow> i < length xs \<Longrightarrow> j < k \<Longrightarrow>
     concat (map f xs) ! (i * k + j) = f (xs ! i) ! j"
proof (induction xs arbitrary: i)
  case Nil
  then show ?case by simp
next
  case (Cons x xs)
  show ?case
  proof (cases i)
    case 0
    with Cons.prems show ?thesis by (simp add: nth_append)
  next
    case (Suc i')
    with Cons.prems have "concat (map f xs) ! (i' * k + j) = f (xs ! i') ! j"
      by (intro Cons.IH) simp_all
    with Suc Cons.prems show ?thesis by (simp add: nth_append add.assoc)
  qed
qed

lemma length_row_items: "length (row_items f r) = width f * 2"
  unfolding row_items_def by (subst length_concat_blocks [where k = 2]) simp_all

lemma length_c_order: "length (c_order f) = height f * width f * 2"
proof -
  show ?thesis
    by (simp add: c_order_def length_concat_blocks [where k = "width f * 2"] length_row_items)
qed

lemma nth_row_items:
  assumes "c < width f" and "k < 2"
  shows "row_items f r ! (c * 2 + k) = [fst (vec f r c), snd (vec f r c)] ! k"
  unfolding row_items_def
  using assms nth_concat_blocks [where xs = "[0..<width f]" and k = 2 and i = c and j = k
      and f = "\<lambda>c. [fst (vec f r c), snd (vec f r c)]"]
  by simp

lemma nth_c_order:
  assumes "r < height f" and "c < width f" and "k < 2"
  shows "c_order f ! ((r * width f + c) * 2 + k) = [fst (vec f r c), snd (vec f r c)] ! k"
proof -
  have eq: "c_order f = concat (map (row_items f) [0..<height f])"
    by (simp add: c_order_def)
  have idx: "(r * width f + c) * 2 + k = r * (width f * 2) + (c * 2 + k)"
    by (simp add: algebra_simps)
  from assms have "c * 2 + k < width f * 2"
    by simp
  with assms(1) have "concat (map (row_items f) [0..<height f]) ! (r * (width f * 2) + (c * 2 + k)) =
      row_items f ([0..<height f] ! r) ! (c * 2 + k)"
    by (intro nth_concat_blocks) (simp_all add: length_row_items)
  with assms have "concat (map (row_items f) [0..<height f]) ! (r * (width f * 2) + (c * 2 + k)) =
      [fst (vec f r c), snd (vec f r c)] ! k"
    by (simp add: nth_row_items)
  then show ?thesis
    unfolding eq idx .
qed

lemma write_flow_fault:
  "fault s fname = Some e \<Longrightarrow> write_flow bo astype fname f s = (Inl (os_error e), s)"
  by (simp add: write_flow_def open_wb_def)

lemma unat_byte: "unat (ucast (drop_bit k w) :: byte) = (unat (w :: 32 word) div 2 ^ k) mod 256"
  unfolding unsigned_ucast_eq unat_drop_bit_eq
  by (simp add: take_bit_eq_mod drop_bit_eq_div)

lemma split_bytes:
  assumes "n < 2 ^ 32"
  shows "n mod 256 + 256 * (n div 256 mod 256 + 256 * (n div 65536 mod 256 + 256 * (n div 16777216 mod 256))) = (n::nat)"
proof -
  have a: "n div 65536 = n div 256 div 256" and b: "n div 16777216 = n div 256 div 256 div 256"
    by (simp_all add: div_mult2_eq [symmetric])
  from assms have c: "n div 256 div 256 div 256 < 256"
    by (simp add: div_mult2_eq [symmetric])
  show ?thesis
    unfolding a b using c by simp
qed

lemma le_nat_le_bytes32: "le_nat (le_bytes32 w) = unat w"
proof -
  have "unat w < 2 ^ 32"
    using unsigned_less [of w] by simp
  then show ?thesis
    using unat_byte [of 0 w] unat_byte [of 8 w] unat_byte [of 16 w] unat_byte [of 24 w]
      split_bytes [of "unat w"]
    by (simp add: le_nat_def le_bytes32_def)
qed

text \<open>
  The pattern of the magic number is the only one that denotes 202021.25: a pattern is
  the sum of its fraction, exponent and sign fields, and the value fixes all three.
\<close>

lemma exponent_less: "unat (take_bit 8 (drop_bit 23 (w :: float32))) < 256"
proof -
  have "unat (take_bit 8 (drop_bit 23 w)) = take_bit 8 (unat (drop_bit 23 w))"
    by (simp add: unsigned_take_bit_eq)
  also have "\<dots> < 2 ^ 8"
    by (rule take_bit_nat_less_exp)
  finally show ?thesis by simp
qed

lemma fraction_less: "unat (take_bit 23 (w :: float32)) < 2 ^ 23"
proof -
  have "unat (take_bit 23 w) = take_bit 23 (unat w)"
    by (simp add: unsigned_take_bit_eq)
  also have "\<dots> < 2 ^ 23"
    by (rule take_bit_nat_less_exp)
  finally show ?thesis .
qed

lemma unat_fields:
  fixes w :: float32
  shows "unat w = unat (take_bit 23 w) + 2 ^ 23 * unat (take_bit 8 (drop_bit 23 w)) +
     2 ^ 31 * (if bit w 31 then 1 else 0)"
proof -
  have a: "unat (take_bit 23 w) = unat w mod 2 ^ 23"
    unfolding unsigned_take_bit_eq by (simp add: take_bit_eq_mod)
  have b: "unat (take_bit 8 (drop_bit 23 w)) = unat w div 2 ^ 23 mod 2 ^ 8"
    unfolding unsigned_take_bit_eq unat_drop_bit_eq by (simp add: take_bit_eq_mod drop_bit_eq_div)
  have c: "bit w 31 \<longleftrightarrow> unat w div 2 ^ 31 = 1"
  proof -
    have "unat w < 2 ^ 32"
      using unsigned_less [of w] by simp
    then have "unat w div 2 ^ 31 < 2"
      by (simp add: less_mult_imp_div_less)
    moreover have "bit w 31 \<longleftrightarrow> bit (unat w) 31"
      by (simp add: bit_unsigned_iff)
    then have "bit w 31 \<longleftrightarrow> odd (unat w div 2 ^ 31)"
      by (simp add: bit_iff_odd)
    ultimately show ?thesis
      by (cases "unat w div 2 ^ 31 = 0") (auto simp add: less_2_cases_iff)
  qed
  have d: "unat w div 2 ^ 31 < 2"
  proof -
    have "unat w < 2 ^ 32"
      using unsigned_less [of w] by simp
    then show ?thesis
      by (simp add: less_mult_imp_div_less)
  qed
  have split: "n = n mod 2 ^ 23 + 2 ^ 23 * (n div 2 ^ 23 mod 2 ^ 8) + 2 ^ 31 * (n div 2 ^ 31)" for n :: nat
  proof -
    have hi: "n div 2 ^ 31 = n div 2 ^ 23 div 2 ^ 8"
      by (simp add: div_mult2_eq [symmetric])
    have "n = n mod 2 ^ 23 + 2 ^ 23 * (n div 2 ^ 23)"
      by simp
    also have "n div 2 ^ 23 = n div 2 ^ 23 mod 2 ^ 8 + 2 ^ 8 * (n div 2 ^ 23 div 2 ^ 8)"
      by simp
    finally have "n = n mod 2 ^ 23 + 2 ^ 23 * (n div 2 ^ 23 mod 2 ^ 8) +
        2 ^ 23 * 2 ^ 8 * (n div 2 ^ 23 div 2 ^ 8)"
      by (simp only: distrib_left mult.assoc add.assoc)
    then show ?thesis
      unfolding hi by simp
  qed
  show ?thesis
    using split [of "unat w"] c d unfolding a b
    by (cases "unat w div 2 ^ 31 = 0") (auto simp add: less_2_cases_iff)
qed


lemma flo_magic_unique:
  assumes "f32_value w = Some 202021.25"
  shows "w = flo_magic"
proof -
  define e where "e = unat (take_bit 8 (drop_bit 23 w))"
  define m where "m = unat (take_bit 23 w)"
  define sg :: real where "sg = (if bit w 31 then - 1 else 1)"
  have e: "e < 256" and m: "m < 2 ^ 23"
    unfolding e_def m_def by (rule exponent_less, rule fraction_less)
  have val: "f32_value w =
      (if e = 255 then None
       else if e = 0 then Some (sg * (2 / 2 ^ 127) * (real m / 2 ^ 23))
       else Some (sg * (2 ^ e / 2 ^ 127) * (1 + real m / 2 ^ 23)))"
    by (simp add: f32_value_def Let_def e_def m_def sg_def)
  from assms val have ne: "e \<noteq> 255"
    by (auto split: if_splits)
  have e0: "e \<noteq> 0"
  proof
    assume z: "e = 0"
    have "real m / 2 ^ 23 < 1"
      using m by simp
    then have "\<bar>sg * (2 / 2 ^ 127) * (real m / 2 ^ 23)\<bar> < 1"
      by (simp add: sg_def abs_mult) 
    moreover from assms val z have "sg * (2 / 2 ^ 127) * (real m / 2 ^ 23) = 202021.25"
      by simp
    ultimately show False
      by simp
  qed
  from assms val ne e0 have eq: "sg * (2 ^ e / 2 ^ 127) * (1 + real m / 2 ^ 23) = 202021.25"
    by simp
  have pos: "sg = 1"
  proof (rule ccontr)
    assume "sg \<noteq> 1"
    then have "sg = - 1"
      by (simp add: sg_def split: if_splits)
    moreover have "0 \<le> (2 ^ e / 2 ^ 127) * (1 + real m / 2 ^ 23)"
      by simp
    ultimately have "sg * (2 ^ e / 2 ^ 127) * (1 + real m / 2 ^ 23) \<le> 0"
      by (simp add: mult.assoc)
    with eq show False
      by simp
  qed
  from eq pos have "2 ^ e * (2 ^ 23 + real m) = 808085 * 2 ^ 148"
    by (simp add: field_simps)
  then have "real (2 ^ e * (2 ^ 23 + m)) = real (808085 * 2 ^ 148)"
    by simp
  then have nat_eq: "2 ^ e * (2 ^ 23 + m) = 808085 * (2::nat) ^ 148"
    by (simp only: of_nat_eq_iff)
  have "e = 144"
  proof (rule ccontr)
    assume "e \<noteq> 144"
    then consider "e \<le> 143" | "145 \<le> e"
      by linarith
    then show False
    proof cases
      case 1
      then have "(2::nat) ^ e \<le> 2 ^ 143"
        by (intro power_increasing) simp_all
      moreover from m have "2 ^ 23 + m \<le> 2 ^ 24"
        by simp
      ultimately have "2 ^ e * (2 ^ 23 + m) \<le> 2 ^ 143 * (2::nat) ^ 24"
        by (rule mult_le_mono)
      with nat_eq show False
        by simp
    next
      case 2
      then have "(2::nat) ^ 145 \<le> 2 ^ e"
        by (intro power_increasing) simp_all
      moreover have "(2::nat) ^ 23 \<le> 2 ^ 23 + m"
        by simp
      ultimately have "(2::nat) ^ 145 * 2 ^ 23 \<le> 2 ^ e * (2 ^ 23 + m)"
        by (rule mult_le_mono)
      with nat_eq show False
        by simp
    qed
  qed
  with nat_eq have "m = 4540752"
    by simp
  from pos have "\<not> bit w 31"
    by (simp add: sg_def split: if_splits)
  with \<open>e = 144\<close> \<open>m = 4540752\<close> have "unat w = unat flo_magic"
    using unat_fields [of w] by (simp add: e_def m_def flo_magic_def)
  then show ?thesis
    by (simp add: word_unat_eq_iff)
qed

lemma flo_magic_iff: "f32_value v = Some 202021.25 \<longleftrightarrow> v = flo_magic"
  using flo_magic_unique flo_magic_value by blast

text \<open>
  Claim C6. When the path can be written and both dimensions fit 32 bits, \<^verbatim>\<open>write_flow\<close>
  returns and the file holds exactly: the four bytes of the one \<^verbatim>\<open>float32\<close> whose value
  is 202021.25, the width and the height as unsigned 32-bit integers, and the
  \<open>width * height * 2\<close> items of the field as \<^verbatim>\<open>float32\<close>, row by row, with \<open>dx\<close> before
  \<open>dy\<close> for each pixel. What the file held before does not occur in the result, and no
  other file changes.
\<close>

theorem write_flow_layout:
  assumes "fault s fname = None" and "width f < 2 ^ 32" and "height f < 2 ^ 32"
  shows "\<exists>s' w h.
     write_flow bo astype fname f s = (Inr (), s') \<and>
     files s' fname =
       Some (tofile32 bo flo_magic @ tofile32 bo w @ tofile32 bo h @
             concat (map (\<lambda>x. tofile32 bo (astype x)) (c_order f))) \<and>
     (\<forall>v. f32_value v = Some 202021.25 \<longleftrightarrow> v = flo_magic) \<and>
     unat w = width f \<and> unat h = height f \<and>
     length (c_order f) = width f * height f * 2 \<and>
     (\<forall>r<height f. \<forall>c<width f.
        c_order f ! ((r * width f + c) * 2) = fst (vec f r c) \<and>
        c_order f ! ((r * width f + c) * 2 + 1) = snd (vec f r c)) \<and>
     (\<forall>p. p \<noteq> fname \<longrightarrow> files s' p = files s p)"
proof -
  obtain w h where w: "to_uint32 (width f) = Inr w" and h: "to_uint32 (height f) = Inr h"
    using assms(2,3) by (simp add: to_uint32_def)
  let ?s' = "s\<lparr>files := (files s)(fname \<mapsto>
     tofile32 bo flo_magic @ tofile32 bo w @ tofile32 bo h @
     concat (map (\<lambda>x. tofile32 bo (astype x)) (c_order f)))\<rparr>"
  have run: "write_flow bo astype fname f s = (Inr (), ?s')"
    using assms(1) w h by (simp add: write_flow_def open_wb_def append_file_def Let_def)
  have items: "\<forall>r<height f. \<forall>c<width f.
        c_order f ! ((r * width f + c) * 2) = fst (vec f r c) \<and>
        c_order f ! ((r * width f + c) * 2 + 1) = snd (vec f r c)"
    using nth_c_order [where f = f and k = 0] nth_c_order [where f = f and k = 1]
    by simp
  have len: "length (c_order f) = width f * height f * 2"
    by (simp add: length_c_order mult.commute)
  from w h have dims: "unat w = width f \<and> unat h = height f"
    by (simp add: unat_to_uint32)
  have others: "\<forall>p. p \<noteq> fname \<longrightarrow> files ?s' p = files s p"
    by simp
  have content: "files ?s' fname =
       Some (tofile32 bo flo_magic @ tofile32 bo w @ tofile32 bo h @
             concat (map (\<lambda>x. tofile32 bo (astype x)) (c_order f)))"
    by simp
  have magic: "\<forall>v. f32_value v = Some 202021.25 \<longleftrightarrow> v = flo_magic"
    using flo_magic_iff by blast
  from run content magic dims len items others show ?thesis
    by blast
qed

lemma toy_flow_order: "c_order toy_flow = [0, 0x3F800000, 1, 0x3F800000]"
  by (simp add: c_order_def row_items_def toy_flow_def upt_rec)

theorem write_flow_layout_witness:
  "fault toy_dir ''d/frame_1.ppm'' = None \<and> width toy_flow < 2 ^ 32 \<and> height toy_flow < 2 ^ 32 \<and>
   files toy_dir ''d/frame_1.ppm'' = Some [1] \<and>
   (\<exists>s'. write_flow Little (\<lambda>x. x) ''d/frame_1.ppm'' toy_flow toy_dir = (Inr (), s') \<and>
      files s' ''d/frame_1.ppm'' =
        Some [0x50, 0x49, 0x45, 0x48,  2, 0, 0, 0,  1, 0, 0, 0,
              0, 0, 0, 0,  0, 0, 0x80, 0x3F,  1, 0, 0, 0,  0, 0, 0x80, 0x3F])"
proof -
  have pre: "fault toy_dir ''d/frame_1.ppm'' = None" "width toy_flow < 2 ^ 32" "height toy_flow < 2 ^ 32"
    by (simp_all add: toy_dir_def toy_flow_def)
  have old: "files toy_dir ''d/frame_1.ppm'' = Some [1]"
    by (simp add: toy_dir_def)
  from write_flow_layout [OF pre, where bo = Little and astype = "\<lambda>x. x"]
  obtain s' w h where run: "write_flow Little (\<lambda>x. x) ''d/frame_1.ppm'' toy_flow toy_dir = (Inr (), s')"
    and content: "files s' ''d/frame_1.ppm'' =
       Some (tofile32 Little flo_magic @ tofile32 Little w @ tofile32 Little h @
             concat (map (\<lambda>x. tofile32 Little x) (c_order toy_flow)))"
    and w: "unat w = width toy_flow" and h: "unat h = height toy_flow"
    by blast
  have "word_of_nat (unat w) = w" and "word_of_nat (unat h) = h"
    by simp_all
  with w h have w2: "w = 2" and h1: "h = 1"
    by (simp_all add: toy_flow_def)
  from content have "files s' ''d/frame_1.ppm'' =
        Some [0x50, 0x49, 0x45, 0x48,  2, 0, 0, 0,  1, 0, 0, 0,
              0, 0, 0, 0,  0, 0, 0x80, 0x3F,  1, 0, 0, 0,  0, 0, 0x80, 0x3F]"
    by (simp add: w2 h1 toy_flow_order tofile32_def le_bytes32_def flo_magic_def)
  with pre old run show ?thesis
    by blast
qed

section \<open>A job whose steps all succeed\<close>

lemma keeps_refl: "keeps s s"
  by (simp add: keeps_def)

lemma keeps_trans: "keeps s t \<Longrightarrow> keeps t u \<Longrightarrow> keeps s u"
  by (simp add: keeps_def)

lemma write_flow_returns:
  assumes "write_flow bo astype p f s = (Inr u, s')"
  shows "exists_file s' p \<and> keeps s s'"
  using assms
  by (auto simp add: write_flow_def open_wb_def append_file_def exists_file_def keeps_def Let_def
      split: option.splits sum.splits)

lemma farneback_returns:
  assumes "farneback env a b fwd bwd s = (Inr u, s')"
  shows "exists_file s' bwd \<and> keeps s s'"
proof -
  from assms obtain x y s1 where
    1: "write_flow (native env) (\<lambda>x. x) fwd x s = (Inr (), s1)" and
    2: "write_flow (native env) (\<lambda>x. x) bwd y s1 = (Inr u, s')"
    by (auto simp add: farneback_def split: sum.splits prod.splits)
  from 1 have "keeps s s1"
    by (simp add: write_flow_returns)
  moreover from 2 have "exists_file s' bwd \<and> keeps s1 s'"
    by (rule write_flow_returns)
  ultimately show ?thesis
    by (blast intro: keeps_trans)
qed

lemma deepflow_returns:
  assumes "honest_tools env" and "deepflow env a b fwd bwd s = (Inr rcs, s')" and "\<forall>rc\<in>set rcs. rc = 0"
  shows "exists_file s' bwd \<and> keeps s s'"
proof -
  from assms(2) obtain o1 s1 rc1 s2 o2 s3 rc2 where
    1: "deepmatching env [a, b, ''-nt'', ''0'', ''-downscale'', ''2''] s = Inr (o1, s1)" and
    2: "deepflow2 env [a, b, fwd, ''-match''] o1 s1 = Inr (rc1, s2)" and
    3: "deepmatching env [b, a, ''-nt'', ''0'', ''-downscale'', ''2''] s2 = Inr (o2, s3)" and
    4: "deepflow2 env [b, a, bwd, ''-match''] o2 s3 = Inr (rc2, s')" and
    rcs: "rcs = [rc1, rc2]"
    by (auto simp add: deepflow_def split: sum.splits prod.splits)
  from assms(1) 1 have k1: "keeps s s1"
    unfolding honest_tools_def by blast
  from assms(1) 2 have k2: "keeps s1 s2"
    unfolding honest_tools_def by blast
  from assms(1) 3 have k3: "keeps s2 s3"
    unfolding honest_tools_def by blast
  from assms(3) rcs have "rc2 = 0"
    by simp
  with assms(1) 4 have k4: "keeps s3 s' \<and> exists_file s' bwd"
    unfolding honest_tools_def by blast
  with k1 k2 k3 show ?thesis
    by (blast intro: keeps_trans)
qed

lemma backend_returns:
  assumes "honest_tools env" and "backend env fast a b fwd bwd s = (Inr rcs, s')"
    and "\<forall>rc\<in>set rcs. rc = 0"
  shows "exists_file s' bwd \<and> keeps s s'"
proof (cases fast)
  case True
  with assms(2) obtain u where "farneback env a b fwd bwd s = (Inr u, s')"
    by (auto simp add: backend_def split: sum.splits prod.splits)
  then show ?thesis
    by (rule farneback_returns)
next
  case False
  with assms(2) have "deepflow env a b fwd bwd s = (Inr rcs, s')"
    by (simp add: backend_def)
  with assms(1) show ?thesis
    using assms(3) by (rule deepflow_returns)
qed

lemma os_remove_returns:
  assumes "os_remove p s = (Inr u, s')"
  shows "\<not> exists_file s' p \<and> (\<forall>q. q \<noteq> p \<longrightarrow> exists_file s' q = exists_file s q)"
  using assms
  by (auto simp add: os_remove_def exists_file_def split: if_splits option.splits)

text \<open>
  Claim C4. After \<^verbatim>\<open>run_job\<close> has completed successfully, that is, it has returned without
  an exception and every process it waited for has exited with status zero, the forward
  flow file of the job does not exist, its backward flow file and its reliability map
  exist, and every other file that was there before is still there. The external
  programs are taken to be honest (they remove nothing, and status zero means the output
  was written).
\<close>

theorem run_job_outputs:
  assumes "honest_tools env"
    and "run_job env idx start_name end_name dst fast s = (Inr rcs, s')"
    and "\<forall>rc\<in>set rcs. rc = 0"
  shows "\<not> exists_file s' (forward_name dst idx) \<and>
         exists_file s' (backward_name dst idx) \<and>
         exists_file s' (reliable_name dst idx) \<and>
         (\<forall>p. p \<noteq> forward_name dst idx \<and> exists_file s p \<longrightarrow> exists_file s' p)"
proof -
  from assms(2) obtain rcs0 s1 rc s2 u where
    b: "backend env fast start_name end_name (forward_name dst idx) (backward_name dst idx) s = (Inr rcs0, s1)"
    and c: "consistency_check env
        [backward_name dst idx, forward_name dst idx, reliable_name dst idx, end_name] s1 = Inr (rc, s2)"
    and r: "os_remove (forward_name dst idx) s2 = (Inr u, s')"
    and rcs: "rcs = rcs0 @ [rc]"
    by (auto simp add: run_job_def split: sum.splits prod.splits)
  from assms(3) rcs have zero: "\<forall>x\<in>set rcs0. x = 0" and rc: "rc = 0"
    by simp_all
  from assms(1) b zero have b': "exists_file s1 (backward_name dst idx) \<and> keeps s s1"
    by (rule backend_returns)
  from assms(1) c rc have c': "keeps s1 s2 \<and> exists_file s2 (reliable_name dst idx)"
    unfolding honest_tools_def by blast
  from r have r': "\<not> exists_file s' (forward_name dst idx) \<and>
      (\<forall>q. q \<noteq> forward_name dst idx \<longrightarrow> exists_file s' q = exists_file s2 q)"
    by (rule os_remove_returns)
  from b' c' have "keeps s s2" and "exists_file s2 (backward_name dst idx)"
    by (auto simp add: keeps_def)
  with r' c' show ?thesis
    using forward_not_backward [of dst idx idx] forward_not_reliable [of dst idx idx]
    by (metis keeps_def)
qed

lemma toy_honest: "honest_tools toy_env"
  by (auto simp add: honest_tools_def toy_env_def toy_flow2_def toy_check_def keeps_def exists_file_def
      split: if_splits)

lemma toy_job_names:
  "forward_name ''d'' 1 = ''d/forward_1_2.flo''"
  "backward_name ''d'' 1 = ''d/backward_2_1.flo''"
  "reliable_name ''d'' 1 = ''d/reliable_2_1.pgm''"
  by (simp_all add: names_defs)

lemma toy_job_deepflow:
  "run_job toy_env 1 ''d/frame_1.ppm'' ''d/frame_2.ppm'' ''d'' False toy_dir =
     (Inr [0, 0, 0],
      toy_dir\<lparr>files := (files toy_dir)(''d/backward_2_1.flo'' \<mapsto> [], ''d/reliable_2_1.pgm'' \<mapsto> [])\<rparr>)"
  by (simp add: run_job_def backend_def deepflow_def toy_job_names os_remove_def exists_file_def
      toy_defs fun_upd_twist)

theorem run_job_outputs_witness:
  "honest_tools toy_env \<and>
   run_job toy_env 1 ''d/frame_1.ppm'' ''d/frame_2.ppm'' ''d'' False toy_dir =
     (Inr [0, 0, 0],
      toy_dir\<lparr>files := (files toy_dir)(''d/backward_2_1.flo'' \<mapsto> [], ''d/reliable_2_1.pgm'' \<mapsto> [])\<rparr>) \<and>
   \<not> exists_file
       (toy_dir\<lparr>files := (files toy_dir)(''d/backward_2_1.flo'' \<mapsto> [], ''d/reliable_2_1.pgm'' \<mapsto> [])\<rparr>)
       (forward_name ''d'' 1) \<and>
   exists_file
       (toy_dir\<lparr>files := (files toy_dir)(''d/backward_2_1.flo'' \<mapsto> [], ''d/reliable_2_1.pgm'' \<mapsto> [])\<rparr>)
       (reliable_name ''d'' 1)"
proof -
  have z: "\<forall>rc\<in>set [0, 0, 0 :: int]. rc = 0"
    by simp
  from run_job_outputs [OF toy_honest toy_job_deepflow z] toy_honest toy_job_deepflow
  show ?thesis
    by blast
qed

section \<open>A job with a failing step\<close>

lemma farneback_missing_frame:
  assumes "imread env a s = None \<or> imread env b s = None"
  shows "farneback env a b fwd bwd s = (Inl CvError, s)"
  using assms by (auto simp add: farneback_def cvtColor_def split: option.splits)

lemma farneback_write_fault:
  assumes "imread env a s = Some ia" and "imread env b s = Some ib"
    and "calc_farneback env (bgr2gray env ia) (bgr2gray env ib) = Inr x"
    and "calc_farneback env (bgr2gray env ib) (bgr2gray env ia) = Inr y"
    and "fault s fwd = Some er"
  shows "farneback env a b fwd bwd s = (Inl (os_error er), s)"
  using assms by (simp add: farneback_def cvtColor_def write_flow_def open_wb_def)

lemma run_job_backend_raises:
  assumes "backend env fast a b (forward_name dst idx) (backward_name dst idx) s = (Inl e, s1)"
  shows "run_job env idx a b dst fast s = (Inl e, s1)"
  using assms by (simp add: run_job_def)

lemma run_job_status_dropped:
  assumes "backend env fast a b (forward_name dst idx) (backward_name dst idx) s = (Inr rcs, s1)"
    and "consistency_check env [backward_name dst idx, forward_name dst idx, reliable_name dst idx, b] s1 =
           Inr (rc, s2)"
  shows "run_job env idx a b dst fast s =
     (case os_remove (forward_name dst idx) s2 of
        (Inl e, s3) \<Rightarrow> (Inl e, s3)
      | (Inr u, s3) \<Rightarrow> (Inr (rcs @ [rc]), s3))"
  using assms by (simp add: run_job_def)

lemma finish_step_confined:
  "pc (finish_step env dst fast t p) = pc p \<and>
   running (finish_step env dst fast t p) = running p \<and>
   attempts (finish_step env dst fast t p) = attempts p \<and>
   length (threads (finish_step env dst fast t p)) = length (threads p) \<and>
   (\<forall>u. u \<noteq> t \<longrightarrow> threads (finish_step env dst fast t p) ! u = threads p ! u)"
  by (simp add: finish_step_def Let_def split: prod.splits)

lemma finish_step_ends:
  assumes "isAlive p t"
  shows "status (threads (finish_step env dst fast t p) ! t) =
     Ended (fst (run_job env (job (threads p ! t)) (job_start (threads p ! t)) (job_end (threads p ! t))
        dst fast (disk p)))"
  using assms by (simp add: finish_step_def Let_def isAlive_def split: prod.splits)

lemma little_bytes:
  "tofile32 Little flo_magic = [0x50, 0x49, 0x45, 0x48]"
  "tofile32 Little 0 = [0, 0, 0, 0]"
  "tofile32 Little 1 = [1, 0, 0, 0]"
  by (simp_all add: tofile32_def le_bytes32_def flo_magic_def)

lemma sloppy_job:
  "run_job sloppy_env 1 ''d/frame_1.ppm'' ''d/frame_2.ppm'' ''d'' True toy_dir =
     (Inr [1],
      toy_dir\<lparr>files := (files toy_dir)(''d/backward_2_1.flo'' \<mapsto>
        [0x50, 0x49, 0x45, 0x48,  1, 0, 0, 0,  1, 0, 0, 0,  0, 0, 0, 0,  0, 0, 0, 0])\<rparr>)"
  by (simp add: run_job_def backend_def farneback_def imread_def cvtColor_def write_flow_def
      to_uint32_def c_order_def row_items_def little_bytes
      open_wb_def append_file_def os_remove_def exists_file_def
      toy_job_names sloppy_env_def toy_defs fun_upd_twist)

text \<open>
  Against claim C5 as stated: with a consistency check that exits with status 1 and
  writes nothing, \<^verbatim>\<open>run_job\<close> in fast mode returns normally (the status is in the list of
  dropped statuses), after running the remaining step, the removal of the forward file;
  no reliability map exists.
\<close>

theorem run_job_nonzero_exit_returns:
  "fst (run_job sloppy_env 1 ''d/frame_1.ppm'' ''d/frame_2.ppm'' ''d'' True toy_dir) = Inr [1] \<and>
   \<not> exists_file (snd (run_job sloppy_env 1 ''d/frame_1.ppm'' ''d/frame_2.ppm'' ''d'' True toy_dir))
       (forward_name ''d'' 1) \<and>
   \<not> exists_file (snd (run_job sloppy_env 1 ''d/frame_1.ppm'' ''d/frame_2.ppm'' ''d'' True toy_dir))
       (reliable_name ''d'' 1)"
  by (simp add: sloppy_job toy_job_names exists_file_def) (simp add: toy_dir_def)

text \<open>
  Claim C5, amended. A step that raises an exception ends \<^verbatim>\<open>run_job\<close> there, with that
  exception and with the directory as the step left it: the flow backend as a whole; in
  fast mode a frame that cannot be read (\<^verbatim>\<open>cv2.error\<close>, nothing written) and a forward
  file that cannot be written; a consistency check that cannot be started. An exit
  status is no failure: whatever status the consistency check exits with, \<^verbatim>\<open>run_job\<close> goes
  on to remove the forward file and returns normally when that removal succeeds. The end
  of a thread, normal or by an exception, changes the state of that thread and the
  directory only: the coordinator, its list of threads and every other thread stay as
  they are.
\<close>

theorem run_job_failing_step:
  "(backend env fast a b (forward_name dst idx) (backward_name dst idx) s = (Inl e, sa) \<longrightarrow>
      run_job env idx a b dst fast s = (Inl e, sa)) \<and>
   (imread env a s = None \<or> imread env b s = None \<longrightarrow>
      run_job env idx a b dst True s = (Inl CvError, s)) \<and>
   (imread env a s = Some ia \<and> imread env b s = Some ib \<and>
    calc_farneback env (bgr2gray env ia) (bgr2gray env ib) = Inr x \<and>
    calc_farneback env (bgr2gray env ib) (bgr2gray env ia) = Inr y \<and>
    fault s (forward_name dst idx) = Some er \<longrightarrow>
      run_job env idx a b dst True s = (Inl (os_error er), s)) \<and>
   (backend env fast a b (forward_name dst idx) (backward_name dst idx) s = (Inr rcs, sa) \<and>
    consistency_check env
      [backward_name dst idx, forward_name dst idx, reliable_name dst idx, b] sa = Inl e \<longrightarrow>
      run_job env idx a b dst fast s = (Inl e, sa)) \<and>
   (backend env fast a b (forward_name dst idx) (backward_name dst idx) s = (Inr rcs, sa) \<and>
    consistency_check env
      [backward_name dst idx, forward_name dst idx, reliable_name dst idx, b] sa = Inr (rc, sb) \<longrightarrow>
      run_job env idx a b dst fast s =
        (case os_remove (forward_name dst idx) sb of
           (Inl e', sc) \<Rightarrow> (Inl e', sc)
         | (Inr u, sc) \<Rightarrow> (Inr (rcs @ [rc]), sc))) \<and>
   pc (finish_step env dst fast t p) = pc p \<and>
   running (finish_step env dst fast t p) = running p \<and>
   attempts (finish_step env dst fast t p) = attempts p \<and>
   length (threads (finish_step env dst fast t p)) = length (threads p) \<and>
   (\<forall>u. u \<noteq> t \<longrightarrow> threads (finish_step env dst fast t p) ! u = threads p ! u)"
proof (intro conjI impI)
  assume "backend env fast a b (forward_name dst idx) (backward_name dst idx) s = (Inl e, sa)"
  then show "run_job env idx a b dst fast s = (Inl e, sa)"
    by (rule run_job_backend_raises)
next
  assume "imread env a s = None \<or> imread env b s = None"
  then have "backend env True a b (forward_name dst idx) (backward_name dst idx) s = (Inl CvError, s)"
    by (simp add: backend_def farneback_missing_frame)
  then show "run_job env idx a b dst True s = (Inl CvError, s)"
    by (rule run_job_backend_raises)
next
  assume "imread env a s = Some ia \<and> imread env b s = Some ib \<and>
    calc_farneback env (bgr2gray env ia) (bgr2gray env ib) = Inr x \<and>
    calc_farneback env (bgr2gray env ib) (bgr2gray env ia) = Inr y \<and>
    fault s (forward_name dst idx) = Some er"
  then have "backend env True a b (forward_name dst idx) (backward_name dst idx) s =
      (Inl (os_error er), s)"
    by (simp add: backend_def farneback_write_fault)
  then show "run_job env idx a b dst True s = (Inl (os_error er), s)"
    by (rule run_job_backend_raises)
next
  assume "backend env fast a b (forward_name dst idx) (backward_name dst idx) s = (Inr rcs, sa) \<and>
    consistency_check env
      [backward_name dst idx, forward_name dst idx, reliable_name dst idx, b] sa = Inl e"
  then show "run_job env idx a b dst fast s = (Inl e, sa)"
    by (simp add: run_job_def)
next
  assume "backend env fast a b (forward_name dst idx) (backward_name dst idx) s = (Inr rcs, sa) \<and>
    consistency_check env
      [backward_name dst idx, forward_name dst idx, reliable_name dst idx, b] sa = Inr (rc, sb)"
  then show "run_job env idx a b dst fast s =
        (case os_remove (forward_name dst idx) sb of
           (Inl e', sc) \<Rightarrow> (Inl e', sc)
         | (Inr u, sc) \<Rightarrow> (Inr (rcs @ [rc]), sc))"
    by (simp add: run_job_status_dropped)
qed (simp_all add: finish_step_confined)

lemma toy_imread:
  "imread toy_env ''d/frame_1.ppm'' toy_dir = Some [1]"
  "imread toy_env ''d/frame_2.ppm'' toy_dir = Some [2]"
  "imread toy_env ''d/frame_1.ppm'' locked_dir = Some [1]"
  "imread toy_env ''d/frame_2.ppm'' locked_dir = Some [2]"
  "imread toy_env ''d/frame_2.ppm'' short_dir = None"
  by (simp_all add: imread_def toy_env_def toy_dir_def locked_dir_def short_dir_def)

lemma toy_calc:
  "calc_farneback toy_env (bgr2gray toy_env i) (bgr2gray toy_env j) =
     Inr \<lparr>height = 1, width = 1, vec = (\<lambda>r c. (0, 0))\<rparr>"
  by (simp add: toy_env_def)

lemma toy_backend:
  assumes "imdecode env = imdecode toy_env" and "bgr2gray env = bgr2gray toy_env"
    and "calc_farneback env = calc_farneback toy_env" and "native env = Little"
  shows "backend env True ''d/frame_1.ppm'' ''d/frame_2.ppm'' (forward_name ''d'' 1) (backward_name ''d'' 1)
     toy_dir = (Inr [], toy_written)"
  using assms
  by (simp add: backend_def farneback_def imread_def cvtColor_def write_flow_def
      to_uint32_def c_order_def row_items_def little_bytes open_wb_def append_file_def
      toy_job_names toy_env_def toy_dir_def toy_written_def toy_flo_def)

theorem run_job_failing_step_witness:
  "imread toy_env ''d/frame_2.ppm'' short_dir = None \<and>
   run_job toy_env 1 ''d/frame_1.ppm'' ''d/frame_2.ppm'' ''d'' True short_dir = (Inl CvError, short_dir) \<and>
   fault locked_dir (forward_name ''d'' 1) = Some ENOSPC \<and>
   run_job toy_env 1 ''d/frame_1.ppm'' ''d/frame_2.ppm'' ''d'' True locked_dir =
     (Inl (OSError ENOSPC), locked_dir) \<and>
   run_job stranded_env 1 ''d/frame_1.ppm'' ''d/frame_2.ppm'' ''d'' True toy_dir =
     (Inl FileNotFoundError, toy_written) \<and>
   run_job sloppy_env 1 ''d/frame_1.ppm'' ''d/frame_2.ppm'' ''d'' True toy_dir =
     (Inr [1], toy_dir\<lparr>files := (files toy_dir)(''d/backward_2_1.flo'' \<mapsto> toy_flo)\<rparr>) \<and>
   pc (finish_step toy_env ''d'' True 0 toy_pool) = Join 0 \<and>
   running (finish_step toy_env ''d'' True 0 toy_pool) = [0]"
proof -
  have missing: "imread toy_env ''d/frame_1.ppm'' short_dir = None \<or>
      imread toy_env ''d/frame_2.ppm'' short_dir = None"
    by (simp add: toy_imread)
  have 1: "run_job toy_env 1 ''d/frame_1.ppm'' ''d/frame_2.ppm'' ''d'' True short_dir =
      (Inl CvError, short_dir)"
    using missing
      run_job_failing_step [where env = toy_env and s = short_dir and fast = True
        and a = "''d/frame_1.ppm''" and b = "''d/frame_2.ppm''" and dst = "''d''" and idx = 1
        and e = FileNotFoundError and sa = toy_written and ia = "[1]" and ib = "[2]" and x = "\<lparr>height = 1, width = 1, vec = (\<lambda>r c. (0, 0))\<rparr>" and y = "\<lparr>height = 1, width = 1, vec = (\<lambda>r c. (0, 0))\<rparr>" and er = ENOSPC and rcs = "[]" and rc = 1 and sb = toy_written and t = 0 and p = toy_pool]
    by blast
  have locked: "fault locked_dir (forward_name ''d'' 1) = Some ENOSPC"
    by (simp add: toy_job_names locked_dir_def)
  have 2: "run_job toy_env 1 ''d/frame_1.ppm'' ''d/frame_2.ppm'' ''d'' True locked_dir =
      (Inl (OSError ENOSPC), locked_dir)"
    using locked toy_imread toy_calc [of "[1]" "[2]"] toy_calc [of "[2]" "[1]"]
      run_job_failing_step [where env = toy_env and s = locked_dir and fast = True
        and a = "''d/frame_1.ppm''" and b = "''d/frame_2.ppm''" and dst = "''d''" and idx = 1
        and e = FileNotFoundError and sa = toy_written and ia = "[1]" and ib = "[2]" and x = "\<lparr>height = 1, width = 1, vec = (\<lambda>r c. (0, 0))\<rparr>" and y = "\<lparr>height = 1, width = 1, vec = (\<lambda>r c. (0, 0))\<rparr>" and er = ENOSPC and rcs = "[]" and rc = 1 and sb = toy_written and t = 0 and p = toy_pool]
    by simp
  have b3: "backend stranded_env True ''d/frame_1.ppm'' ''d/frame_2.ppm'' (forward_name ''d'' 1)
      (backward_name ''d'' 1) toy_dir = (Inr [], toy_written)"
    by (rule toy_backend) (simp_all add: stranded_env_def toy_env_def)
  have c3: "consistency_check stranded_env
      [backward_name ''d'' 1, forward_name ''d'' 1, reliable_name ''d'' 1, ''d/frame_2.ppm''] toy_written =
      Inl FileNotFoundError"
    by (simp add: stranded_env_def)
  have 3: "run_job stranded_env 1 ''d/frame_1.ppm'' ''d/frame_2.ppm'' ''d'' True toy_dir =
      (Inl FileNotFoundError, toy_written)"
    using b3 c3
      run_job_failing_step [where env = stranded_env and s = toy_dir and fast = True
        and a = "''d/frame_1.ppm''" and b = "''d/frame_2.ppm''" and dst = "''d''" and idx = 1
        and e = FileNotFoundError and sa = toy_written and ia = "[1]" and ib = "[2]" and x = "\<lparr>height = 1, width = 1, vec = (\<lambda>r c. (0, 0))\<rparr>" and y = "\<lparr>height = 1, width = 1, vec = (\<lambda>r c. (0, 0))\<rparr>" and er = ENOSPC and rcs = "[]" and rc = 1 and sb = toy_written and t = 0 and p = toy_pool]
    by blast
  have b4: "backend sloppy_env True ''d/frame_1.ppm'' ''d/frame_2.ppm'' (forward_name ''d'' 1)
      (backward_name ''d'' 1) toy_dir = (Inr [], toy_written)"
    by (rule toy_backend) (simp_all add: sloppy_env_def toy_env_def)
  have c4: "consistency_check sloppy_env
      [backward_name ''d'' 1, forward_name ''d'' 1, reliable_name ''d'' 1, ''d/frame_2.ppm''] toy_written =
      Inr (1, toy_written)"
    by (simp add: sloppy_env_def)
  have r4: "os_remove (forward_name ''d'' 1) toy_written =
      (Inr (), toy_dir\<lparr>files := (files toy_dir)(''d/backward_2_1.flo'' \<mapsto> toy_flo)\<rparr>)"
    by (simp add: os_remove_def exists_file_def toy_job_names toy_written_def toy_dir_def fun_upd_twist)
  have "run_job sloppy_env 1 ''d/frame_1.ppm'' ''d/frame_2.ppm'' ''d'' True toy_dir =
      (case os_remove (forward_name ''d'' 1) toy_written of
         (Inl e', s3) \<Rightarrow> (Inl e', s3)
       | (Inr u, s3) \<Rightarrow> (Inr ([] @ [1]), s3))"
    using b4 c4
      run_job_failing_step [where env = sloppy_env and s = toy_dir and fast = True
        and a = "''d/frame_1.ppm''" and b = "''d/frame_2.ppm''" and dst = "''d''" and idx = 1
        and e = FileNotFoundError and sa = toy_written and ia = "[1]" and ib = "[2]" and x = "\<lparr>height = 1, width = 1, vec = (\<lambda>r c. (0, 0))\<rparr>" and y = "\<lparr>height = 1, width = 1, vec = (\<lambda>r c. (0, 0))\<rparr>" and er = ENOSPC and rcs = "[]" and rc = 1 and sb = toy_written and t = 0 and p = toy_pool]
    by blast
  then have 4: "run_job sloppy_env 1 ''d/frame_1.ppm'' ''d/frame_2.ppm'' ''d'' True toy_dir =
      (Inr [1], toy_dir\<lparr>files := (files toy_dir)(''d/backward_2_1.flo'' \<mapsto> toy_flo)\<rparr>)"
    by (simp add: r4)
  have 5: "pc (finish_step toy_env ''d'' True 0 toy_pool) = Join 0 \<and>
      running (finish_step toy_env ''d'' True 0 toy_pool) = [0]"
    using run_job_failing_step [where env = toy_env and s = short_dir and fast = True
        and a = "''d/frame_1.ppm''" and b = "''d/frame_2.ppm''" and dst = "''d''" and idx = 1
        and e = FileNotFoundError and sa = toy_written and ia = "[1]" and ib = "[2]" and x = "\<lparr>height = 1, width = 1, vec = (\<lambda>r c. (0, 0))\<rparr>" and y = "\<lparr>height = 1, width = 1, vec = (\<lambda>r c. (0, 0))\<rparr>" and er = ENOSPC and rcs = "[]" and rc = 1 and sb = toy_written and t = 0 and p = toy_pool]
    by (simp add: toy_pool_def)
  from 1 2 3 4 5 locked toy_imread(5) show ?thesis
    by blast
qed

section \<open>A job whose end frame is missing\<close>

lemma deepflow_without_frame:
  assumes "need_inputs env" and "\<not> exists_file s b"
  shows "\<exists>r. deepflow env a b fwd bwd s = (r, s)"
proof -
  have dm: "deepmatching env (x # y # rest) s = Inr (out, s') \<Longrightarrow> x = b \<or> y = b \<Longrightarrow> s' = s"
    for x y rest out s'
    using assms unfolding need_inputs_def by blast
  have df: "deepflow2 env (x # y # rest) inp s = Inr (rc, s') \<Longrightarrow> x = b \<or> y = b \<Longrightarrow> s' = s"
    for x y rest inp rc s'
    using assms unfolding need_inputs_def by blast
  show ?thesis
  proof (cases "deepmatching env [a, b, ''-nt'', ''0'', ''-downscale'', ''2''] s")
    case (Inl e)
    then show ?thesis by (simp add: deepflow_def)
  next
    case (Inr r1)
    then obtain o1 where 1: "deepmatching env [a, b, ''-nt'', ''0'', ''-downscale'', ''2''] s = Inr (o1, s)"
      using dm [of a b _ "fst r1" "snd r1"] by (cases r1) auto
    show ?thesis
    proof (cases "deepflow2 env [a, b, fwd, ''-match''] o1 s")
      case (Inl e)
      with 1 show ?thesis by (simp add: deepflow_def)
    next
      case (Inr r2)
      then obtain rc1 where 2: "deepflow2 env [a, b, fwd, ''-match''] o1 s = Inr (rc1, s)"
        using df [of a b _ o1 "fst r2" "snd r2"] by (cases r2) auto
      show ?thesis
      proof (cases "deepmatching env [b, a, ''-nt'', ''0'', ''-downscale'', ''2''] s")
        case (Inl e)
        with 1 2 show ?thesis by (simp add: deepflow_def)
      next
        case (Inr r3)
        then obtain o2 where 3: "deepmatching env [b, a, ''-nt'', ''0'', ''-downscale'', ''2''] s = Inr (o2, s)"
          using dm [of b a _ "fst r3" "snd r3"] by (cases r3) auto
        show ?thesis
        proof (cases "deepflow2 env [b, a, bwd, ''-match''] o2 s")
          case (Inl e)
          with 1 2 3 show ?thesis by (simp add: deepflow_def)
        next
          case (Inr r4)
          then obtain rc2 where 4: "deepflow2 env [b, a, bwd, ''-match''] o2 s = Inr (rc2, s)"
            using df [of b a _ o2 "fst r4" "snd r4"] by (cases r4) auto
          with 1 2 3 show ?thesis by (simp add: deepflow_def)
        qed
      qed
    qed
  qed
qed

lemma run_job_without_frame_deepflow:
  assumes "need_inputs env" and "\<not> exists_file s b" and "\<not> exists_file s (forward_name dst idx)"
  shows "\<exists>e. run_job env idx a b dst False s = (Inl e, s)"
proof -
  from assms(1,2) obtain r where d: "deepflow env a b (forward_name dst idx) (backward_name dst idx) s = (r, s)"
    using deepflow_without_frame by blast
  show ?thesis
  proof (cases r)
    case (Inl e)
    with d show ?thesis by (simp add: run_job_def backend_def)
  next
    case (Inr rcs)
    show ?thesis
    proof (cases "consistency_check env
        [backward_name dst idx, forward_name dst idx, reliable_name dst idx, b] s")
      case (Inl e)
      with d Inr show ?thesis by (simp add: run_job_def backend_def)
    next
      case c: (Inr rs)
      have "consistency_check env [x, y, z, b] s = Inr (rc, s') \<Longrightarrow> s' = s" for x y z rc s'
        using assms(1,2) unfolding need_inputs_def by blast
      with c have "consistency_check env
        [backward_name dst idx, forward_name dst idx, reliable_name dst idx, b] s = Inr (fst rs, s)"
        by (cases rs) auto
      with d Inr assms(3) show ?thesis
        by (simp add: run_job_def backend_def os_remove_def)
    qed
  qed
qed

lemma run_job_without_frame_fast:
  assumes "\<not> exists_file s b"
  shows "run_job env idx a b dst True s = (Inl CvError, s)"
proof -
  from assms have "imread env b s = None"
    by (simp add: imread_def exists_file_def)
  then show ?thesis
    by (simp add: run_job_def backend_def farneback_missing_frame)
qed

text \<open>
  Claim C8. Take a job that nobody has claimed and whose placeholder can be created, in a
  directory that holds none of its flow files and no reliability map, and let its end
  frame (frame \<open>idx + 1\<close>) be absent. Then the claim succeeds and the placeholder exists
  afterwards; the job fails with an exception and leaves the directory as the claim left
  it, so neither a backward flow file nor a reliability map exists. In fast mode the
  exception is the \<^verbatim>\<open>cv2.error\<close> of converting the frame that could not be read. In the
  default mode the module itself never looks at the frames: the external programs are
  taken to need their inputs, and the exception is the one of starting a program or of
  removing the forward file that was never written.
\<close>

theorem missing_end_frame:
  assumes "\<not> exists_file s (placeholder_path env dst idx)"
    and "fault s (placeholder_path env dst idx) = None"
    and "\<not> exists_file s (pjoin dst (frame_name env (idx + 1)))"
    and "placeholder_path env dst idx \<noteq> pjoin dst (frame_name env (idx + 1))"
    and "\<not> exists_file s (forward_name dst idx)"
    and "\<not> exists_file s (backward_name dst idx)"
    and "\<not> exists_file s (reliable_name dst idx)"
    and "\<not> fast \<longrightarrow> need_inputs env"
  shows "\<exists>start_name end_name s' e.
     claim_job env idx frames dst s = (Inr (Some (start_name, end_name)), s') \<and>
     end_name = pjoin dst (frame_name env (idx + 1)) \<and>
     exists_file s' (placeholder_path env dst idx) \<and>
     run_job env idx start_name end_name dst fast s' = (Inl e, s') \<and>
     (fast \<longrightarrow> e = CvError) \<and>
     \<not> exists_file s' (backward_name dst idx) \<and>
     \<not> exists_file s' (reliable_name dst idx)"
proof -
  let ?P = "placeholder_path env dst idx"
  let ?S = "pjoin dst (frame_name env idx)"
  let ?E = "pjoin dst (frame_name env (idx + 1))"
  let ?s' = "s\<lparr>files := (files s)(?P \<mapsto> placeholder_text env)\<rparr>"
  have c: "claim_job env idx frames dst s = (Inr (Some (?S, ?E)), ?s')"
    using assms(1,2) by (simp add: claim_job_def open_x_def append_file_def Let_def)
  have p: "exists_file ?s' ?P"
    by (simp add: exists_file_def)
  have other: "q \<noteq> ?P \<Longrightarrow> exists_file ?s' q = exists_file s q" for q
    by (simp add: exists_file_def)
  from assms(3,4) have e: "\<not> exists_file ?s' ?E"
    by (simp add: exists_file_def)
  from assms(5) have f: "\<not> exists_file ?s' (forward_name dst idx)"
    using placeholder_not_forward [of env dst idx idx] by (simp add: exists_file_def)
  from assms(6) have b: "\<not> exists_file ?s' (backward_name dst idx)"
    using placeholder_not_backward [of env dst idx idx] by (simp add: exists_file_def)
  from assms(7) have r: "\<not> exists_file ?s' (reliable_name dst idx)"
    using placeholder_not_reliable [of env dst idx idx] by (simp add: exists_file_def)
  have "\<exists>e. run_job env idx ?S ?E dst fast ?s' = (Inl e, ?s') \<and> (fast \<longrightarrow> e = CvError)"
  proof (cases fast)
    case True
    with e show ?thesis
      by (simp add: run_job_without_frame_fast)
  next
    case False
    with assms(8) have "need_inputs env"
      by simp
    with False show ?thesis
      using run_job_without_frame_deepflow [OF _ e f, where a = ?S] by simp
  qed
  with c p b r show ?thesis
    by blast
qed

lemma toy_need_inputs: "need_inputs toy_env"
  by (auto simp add: need_inputs_def toy_env_def toy_flow2_def toy_check_def split: if_splits list.splits)

lemma short_claim:
  "claim_job toy_env 1 frames ''d'' short_dir =
     (Inr (Some (''d/frame_1.ppm'', ''d/frame_2.ppm'')), short_claimed)"
  by (simp add: claim_job_def toy_names open_x_def exists_file_def append_file_def short_claimed_def
        Let_def short_dir_def)

theorem missing_end_frame_witness:
  "\<not> exists_file short_dir (placeholder_path toy_env ''d'' 1) \<and>
   fault short_dir (placeholder_path toy_env ''d'' 1) = None \<and>
   \<not> exists_file short_dir (pjoin ''d'' (frame_name toy_env (1 + 1))) \<and>
   need_inputs toy_env \<and>
   claim_job toy_env 1 [] ''d'' short_dir =
     (Inr (Some (''d/frame_1.ppm'', ''d/frame_2.ppm'')), short_claimed) \<and>
   exists_file short_claimed (placeholder_path toy_env ''d'' 1) \<and>
   (\<exists>e. run_job toy_env 1 ''d/frame_1.ppm'' ''d/frame_2.ppm'' ''d'' False short_claimed =
      (Inl e, short_claimed)) \<and>
   \<not> exists_file short_claimed (backward_name ''d'' 1) \<and>
   \<not> exists_file short_claimed (reliable_name ''d'' 1)"
proof -
  have h: "\<not> exists_file short_dir (placeholder_path toy_env ''d'' 1)"
      "fault short_dir (placeholder_path toy_env ''d'' 1) = None"
      "\<not> exists_file short_dir (pjoin ''d'' (frame_name toy_env (1 + 1)))"
      "placeholder_path toy_env ''d'' 1 \<noteq> pjoin ''d'' (frame_name toy_env (1 + 1))"
      "\<not> exists_file short_dir (forward_name ''d'' 1)"
      "\<not> exists_file short_dir (backward_name ''d'' 1)"
      "\<not> exists_file short_dir (reliable_name ''d'' 1)"
      "\<not> False \<longrightarrow> need_inputs toy_env"
    by (simp_all add: toy_names toy_job_names toy_need_inputs exists_file_def short_dir_def)
  from missing_end_frame [OF h, where frames = "[]"] short_claim [of "[]"]
  have "exists_file short_claimed (placeholder_path toy_env ''d'' 1) \<and>
   (\<exists>e. run_job toy_env 1 ''d/frame_1.ppm'' ''d/frame_2.ppm'' ''d'' False short_claimed =
      (Inl e, short_claimed)) \<and>
   \<not> exists_file short_claimed (backward_name ''d'' 1) \<and>
   \<not> exists_file short_claimed (reliable_name ''d'' 1)"
    by auto
  with h(1-3) toy_need_inputs short_claim [of "[]"] show ?thesis
    by blast
qed

section \<open>The pool: at most the configured number of jobs at a time\<close>

lemma active_card: "active p = card {t. isAlive p t}"
  by (simp add: active_def isAlive_def length_filter_conv_card)

lemma active_le_running:
  assumes "inv_run p"
  shows "active p \<le> length (running p)"
proof -
  from assms have "{t. isAlive p t} \<subseteq> set (running p)"
    by (auto simp add: inv_run_def)
  then have "card {t. isAlive p t} \<le> card (set (running p))"
    by (simp add: card_mono)
  also have "\<dots> \<le> length (running p)"
    by (rule card_length)
  finally show ?thesis
    by (simp add: active_card)
qed

lemma isAlive_spawn:
  "isAlive (spawn j a b p) t \<longleftrightarrow> isAlive p t \<or> t = length (threads p)"
  by (auto simp add: isAlive_def spawn_def nth_append)

lemma isAlive_frame:
  "isAlive (p\<lparr>pc := c\<rparr>) t = isAlive p t"
  "isAlive (p\<lparr>disk := d\<rparr>) t = isAlive p t"
  "isAlive (p\<lparr>attempts := a\<rparr>) t = isAlive p t"
  "isAlive (p\<lparr>running := r\<rparr>) t = isAlive p t"
  by (simp_all add: isAlive_def)

lemma running_spawn: "running (spawn j a b p) = running p @ [length (threads p)]"
  by (simp add: spawn_def)

lemma pool_run_append:
  "pool_run env frames dst fast (es @ es') p =
     pool_run env frames dst fast es' (pool_run env frames dst fast es p)"
  by (induction es arbitrary: p) simp_all

lemma inv_run_coord:
  assumes "inv_run p"
  shows "inv_run (coord_step env frames dst p)"
proof (cases "pc p")
  case (Loop idxs)
  with assms show ?thesis
    by (cases idxs) (auto simp add: coord_step_def inv_run_def isAlive_def)
next
  case (Claim idx rest)
  with assms show ?thesis
    by (auto simp add: coord_step_def inv_run_def Let_def isAlive_spawn running_spawn isAlive_frame
        split: prod.splits sum.splits option.splits)
next
  case (Join k)
  with assms show ?thesis
    by (auto simp add: coord_step_def inv_run_def isAlive_def)
next
  case Returned
  with assms show ?thesis
    by (simp add: coord_step_def)
next
  case (Raised e)
  with assms show ?thesis
    by (simp add: coord_step_def)
qed

lemma isAlive_finish:
  "isAlive (finish_step env dst fast t p) u \<Longrightarrow> isAlive p u"
  by (auto simp add: finish_step_def isAlive_def Let_def nth_list_update split: prod.splits if_splits)

lemma inv_run_finish:
  assumes "inv_run p"
  shows "inv_run (finish_step env dst fast t p)"
  using assms isAlive_finish [of env dst fast t p] finish_step_confined [of env dst fast t p]
  by (auto simp add: inv_run_def)

lemma inv_run_step:
  assumes "inv_run p"
  shows "inv_run (pool_step env frames dst fast e p)"
  using assms
  by (cases e) (simp_all add: inv_run_coord inv_run_finish, simp add: inv_run_def isAlive_def)

lemma inv_cap_coord:
  assumes "inv_cap env p"
  shows "inv_cap env (coord_step env frames dst p)"
proof (cases "pc p")
  case (Loop idxs)
  show ?thesis
  proof (cases idxs)
    case Nil
    with Loop assms show ?thesis
      by (simp add: coord_step_def inv_cap_def)
  next
    case (Cons idx rest)
    have "length (filter (isAlive p) (running p)) \<le> length (running p)"
      by simp
    with Loop Cons assms show ?thesis
      by (auto simp add: coord_step_def inv_cap_def)
  qed
next
  case (Claim idx rest)
  with assms show ?thesis
    by (auto simp add: coord_step_def inv_cap_def Let_def spawn_def
        split: prod.splits sum.splits option.splits)
next
  case (Join k)
  with assms show ?thesis
    by (auto simp add: coord_step_def inv_cap_def)
next
  case Returned
  with assms show ?thesis
    by (simp add: coord_step_def)
next
  case (Raised e)
  with assms show ?thesis
    by (simp add: coord_step_def)
qed

lemma inv_cap_step:
  assumes "inv_cap env p"
  shows "inv_cap env (pool_step env frames dst fast e p)"
proof (cases e)
  case Coord
  with assms show ?thesis
    by (simp add: inv_cap_coord)
next
  case (Finish t)
  with assms show ?thesis
    using finish_step_confined [of env dst fast t p] by (simp add: inv_cap_def)
next
  case (Env g)
  with assms show ?thesis
    by (simp add: inv_cap_def)
qed

lemma inv_run_run:
  "inv_run p \<Longrightarrow> inv_run (pool_run env frames dst fast es p)"
  by (induction es arbitrary: p) (simp_all add: inv_run_step)

lemma inv_cap_run:
  "inv_cap env p \<Longrightarrow> inv_cap env (pool_run env frames dst fast es p)"
  by (induction es arbitrary: p) (simp_all add: inv_cap_step)

lemma inv_run_init: "inv_run (init_pool start frames s)"
  by (simp add: inv_run_def init_pool_def isAlive_def)

lemma inv_cap_init: "0 \<le> max_optflow_jobs env \<Longrightarrow> inv_cap env (init_pool start frames s)"
  by (simp add: inv_cap_def init_pool_def)

text \<open>
  Claim C3. With a maximum that is not negative, in every state of an execution of
  \<^verbatim>\<open>optflow\<close>, whatever the schedule of the coordinator, its threads and the other workers,
  the number of executions of \<^verbatim>\<open>run_job\<close> that have started and not ended is at most
  \<^verbatim>\<open>MAX_OPTFLOW_JOBS\<close>; it is below the maximum whenever the coordinator is about to call
  \<^verbatim>\<open>claim_job\<close>; and when it is at the maximum at the head of the loop, the next step of
  the coordinator stays there: no index is claimed and no thread is started.
\<close>

theorem active_jobs_bounded:
  assumes "0 \<le> max_optflow_jobs env"
  shows "int (active (optflow env start frames dst fast s es)) \<le> max_optflow_jobs env \<and>
     (\<forall>idx rest. pc (optflow env start frames dst fast s es) = Claim idx rest \<longrightarrow>
        int (active (optflow env start frames dst fast s es)) < max_optflow_jobs env) \<and>
     (\<forall>idx rest. pc (optflow env start frames dst fast s es) = Loop (idx # rest) \<and>
        max_optflow_jobs env \<le> int (active (optflow env start frames dst fast s es)) \<longrightarrow>
        pc (optflow env start frames dst fast s (es @ [Coord])) = Loop (idx # rest) \<and>
        attempts (optflow env start frames dst fast s (es @ [Coord])) =
          attempts (optflow env start frames dst fast s es) \<and>
        threads (optflow env start frames dst fast s (es @ [Coord])) =
          threads (optflow env start frames dst fast s es))"
proof -
  let ?p = "optflow env start frames dst fast s es"
  have r: "inv_run ?p"
    unfolding optflow_def by (intro inv_run_run inv_run_init)
  from assms have c: "inv_cap env ?p"
    unfolding optflow_def by (intro inv_cap_run inv_cap_init)
  from r have le: "active ?p \<le> length (running ?p)"
    by (rule active_le_running)
  have next_step: "optflow env start frames dst fast s (es @ [Coord]) = coord_step env frames dst ?p"
    by (simp add: optflow_def pool_run_append)
  from le c have 1: "int (active ?p) \<le> max_optflow_jobs env"
    by (simp add: inv_cap_def)
  from le c have 2: "\<forall>idx rest. pc ?p = Claim idx rest \<longrightarrow> int (active ?p) < max_optflow_jobs env"
    by (auto simp add: inv_cap_def)
  have 3: "\<forall>idx rest. pc ?p = Loop (idx # rest) \<and> max_optflow_jobs env \<le> int (active ?p) \<longrightarrow>
        pc (coord_step env frames dst ?p) = Loop (idx # rest) \<and>
        attempts (coord_step env frames dst ?p) = attempts ?p \<and>
        threads (coord_step env frames dst ?p) = threads ?p"
    using le by (auto simp add: coord_step_def)
  from 1 2 3 show ?thesis
    unfolding next_step by blast
qed

lemma toy_names2:
  "placeholder_path toy_env ''d'' 2 = ''d/frame_2.plc''"
  "pjoin ''d'' (frame_name toy_env 3) = ''d/frame_3.ppm''"
  by (simp_all add: names_defs toy_env_def)

lemma toy_max: "max_optflow_jobs toy_env = 2"
  by (simp add: toy_env_def)

lemma claim_2:
  "claim_job toy_env 2 frames ''d'' claimed_dir =
     (Inr (Some (''d/frame_2.ppm'', ''d/frame_3.ppm'')), claimed2_dir)"
  by (simp add: claim_job_def toy_names toy_names2 open_x_def exists_file_def append_file_def claimed_dir_def
        claimed2_dir_def Let_def toy_dir_def)

lemma coord_step_room:
  assumes "pc p = Loop (idx # rest)" and "int (length (running p)) < max_optflow_jobs env"
  shows "coord_step env frames dst p = p\<lparr>pc := Claim idx rest\<rparr>"
  using assms by (simp add: coord_step_def)

lemma coord_step_full:
  assumes "pc p = Loop (idx # rest)" and "max_optflow_jobs env \<le> int (length (running p))"
  shows "coord_step env frames dst p = p\<lparr>running := filter (isAlive p) (running p)\<rparr>"
  using assms by (simp add: coord_step_def)

lemma coord_step_claimed:
  assumes "pc p = Claim idx rest"
    and "claim_job env (idx + 1) frames dst (disk p) = (Inr (Some (a, b)), s)" and "a \<noteq> []"
  shows "coord_step env frames dst p =
     spawn (idx + 1) a b (p\<lparr>pc := Loop rest, disk := s, attempts := attempts p @ [idx + 1]\<rparr>)"
  using assms by (simp add: coord_step_def)

lemma busy_run:
  "optflow toy_env 0 four_frames ''d'' True toy_dir [Coord, Coord, Coord, Coord] = busy_pool"
proof -
  let ?t1 = "\<lparr>job = 1, job_start = ''d/frame_1.ppm'', job_end = ''d/frame_2.ppm'', status = Alive\<rparr>"
  let ?p0 = "\<lparr>pc = Loop [0, 1, 2], running = [], threads = [], disk = toy_dir, attempts = []\<rparr>"
  let ?p1 = "\<lparr>pc = Claim 0 [1, 2], running = [], threads = [], disk = toy_dir, attempts = []\<rparr>"
  let ?p2 = "\<lparr>pc = Loop [1, 2], running = [0], threads = [?t1], disk = claimed_dir, attempts = [1]\<rparr>"
  let ?p3 = "\<lparr>pc = Claim 1 [2], running = [0], threads = [?t1], disk = claimed_dir, attempts = [1]\<rparr>"
  have 0: "init_pool 0 four_frames toy_dir = ?p0"
    by (simp add: init_pool_def job_range_def four_frames_def upto.simps)
  have 1: "coord_step toy_env four_frames ''d'' ?p0 = ?p1"
    by (simp add: coord_step_room toy_max)
  have 2: "coord_step toy_env four_frames ''d'' ?p1 = ?p2"
    by (simp add: coord_step_claimed [where a = "''d/frame_1.ppm''" and b = "''d/frame_2.ppm''"
          and s = claimed_dir] toy_claim spawn_def)
  have 3: "coord_step toy_env four_frames ''d'' ?p2 = ?p3"
    by (simp add: coord_step_room toy_max)
  have 4: "coord_step toy_env four_frames ''d'' ?p3 = busy_pool"
    by (simp add: coord_step_claimed [where a = "''d/frame_2.ppm''" and b = "''d/frame_3.ppm''"
          and s = claimed2_dir] claim_2 spawn_def busy_pool_def)
  show ?thesis
    by (simp add: optflow_def 0 1 2 3 4)
qed

lemma busy_active: "active busy_pool = 2" "pc busy_pool = Loop [2]"
  by (simp_all add: active_def busy_pool_def)

theorem active_jobs_bounded_witness:
  "0 \<le> max_optflow_jobs toy_env \<and>
   int (active (optflow toy_env 0 four_frames ''d'' True toy_dir [Coord, Coord, Coord, Coord])) = 2 \<and>
   max_optflow_jobs toy_env = 2 \<and>
   pc (optflow toy_env 0 four_frames ''d'' True toy_dir [Coord, Coord, Coord, Coord]) = Loop [2] \<and>
   pc (optflow toy_env 0 four_frames ''d'' True toy_dir ([Coord, Coord, Coord, Coord] @ [Coord])) = Loop [2] \<and>
   attempts (optflow toy_env 0 four_frames ''d'' True toy_dir ([Coord, Coord, Coord, Coord] @ [Coord])) = [1, 2]"
proof -
  have m: "0 \<le> max_optflow_jobs toy_env"
    by (simp add: toy_max)
  have a: "attempts busy_pool = [1, 2]"
    by (simp add: busy_pool_def)
  from active_jobs_bounded [OF m, where start = 0 and frames = four_frames and dst = "''d''" and fast = True
      and s = toy_dir and es = "[Coord, Coord, Coord, Coord]"]
  show ?thesis
    unfolding busy_run using m a by (simp add: busy_active toy_max)
qed

section \<open>The pool: which indices are claimed, and the final join\<close>

lemma map_succ_upto: "map (\<lambda>i. i + 1) [a..b] = [a + 1..b + 1]"
  by (rule nth_equalityI) simp_all

lemma inv_log_coord:
  assumes "inv_log todo p"
  shows "inv_log todo (coord_step env frames dst p)"
proof (cases "pc p")
  case (Loop idxs)
  with assms show ?thesis
    by (cases idxs) (auto simp add: coord_step_def inv_log_def pending_def)
next
  case (Claim idx rest)
  with assms show ?thesis
    by (auto simp add: coord_step_def inv_log_def pending_def Let_def spawn_def
        split: prod.splits sum.splits option.splits)
next
  case (Join k)
  with assms show ?thesis
    by (auto simp add: coord_step_def inv_log_def pending_def)
next
  case Returned
  with assms show ?thesis
    by (simp add: coord_step_def)
next
  case (Raised e)
  with assms show ?thesis
    by (simp add: coord_step_def)
qed

lemma inv_log_step:
  assumes "inv_log todo p"
  shows "inv_log todo (pool_step env frames dst fast e p)"
proof (cases e)
  case Coord
  with assms show ?thesis
    by (simp add: inv_log_coord)
next
  case (Finish t)
  with assms show ?thesis
    using finish_step_confined [of env dst fast t p] by (simp add: inv_log_def split: option.splits)
next
  case (Env g)
  with assms show ?thesis
    by (simp add: inv_log_def split: option.splits)
qed

lemma inv_log_run:
  "inv_log todo p \<Longrightarrow> inv_log todo (pool_run env frames dst fast es p)"
  by (induction es arbitrary: p) (simp_all add: inv_log_step)

lemma inv_log_init: "inv_log (job_range start frames) (init_pool start frames s)"
  by (simp add: inv_log_def init_pool_def pending_def)

lemma inv_join_coord:
  assumes "inv_join p"
  shows "inv_join (coord_step env frames dst p)"
proof (cases "pc p")
  case (Loop idxs)
  then show ?thesis
    by (cases idxs) (auto simp add: coord_step_def inv_join_def)
next
  case (Claim idx rest)
  then show ?thesis
    by (auto simp add: coord_step_def inv_join_def Let_def spawn_def
        split: prod.splits sum.splits option.splits)
next
  case (Join k)
  show ?thesis
  proof (cases "k < length (running p)")
    case True
    with Join assms show ?thesis
      by (auto simp add: coord_step_def inv_join_def isAlive_frame less_Suc_eq)
  next
    case False
    with Join assms have "\<forall>t\<in>set (running p). \<not> isAlive p t"
      by (auto simp add: inv_join_def in_set_conv_nth)
    with Join False show ?thesis
      by (simp add: coord_step_def inv_join_def isAlive_frame)
  qed
next
  case Returned
  with assms show ?thesis
    by (simp add: coord_step_def)
next
  case (Raised e)
  with assms show ?thesis
    by (simp add: coord_step_def)
qed

lemma inv_join_step:
  assumes "inv_join p"
  shows "inv_join (pool_step env frames dst fast e p)"
proof (cases e)
  case Coord
  with assms show ?thesis
    by (simp add: inv_join_coord)
next
  case (Finish t)
  with assms show ?thesis
    using finish_step_confined [of env dst fast t p] isAlive_finish [of env dst fast t p]
    by (auto simp add: inv_join_def)
next
  case (Env g)
  with assms show ?thesis
    by (simp add: inv_join_def isAlive_frame)
qed

lemma inv_join_run:
  "inv_join p \<Longrightarrow> inv_join (pool_run env frames dst fast es p)"
  by (induction es arbitrary: p) (simp_all add: inv_join_step)

lemma inv_join_init: "inv_join (init_pool start frames s)"
  by (simp add: inv_join_def init_pool_def)

lemma claimed_indices:
  "map (\<lambda>i. i + 1) (job_range start frames) = [start + 1 .. start + int (length frames) - 1]"
  by (simp add: job_range_def map_succ_upto)

text \<open>
  Progress: when at least one job may run, every execution can be continued to the end
  of \<^verbatim>\<open>optflow\<close>. Let the threads that are alive end; then the coordinator finds room
  (after one pruning of \<open>running\<close>), claims the next index, and so on through the loop
  and the joins.
\<close>

lemma finite_alive: "finite {t. isAlive p t}"
proof -
  have "{t. isAlive p t} \<subseteq> {..<length (threads p)}"
    by (auto simp add: isAlive_def)
  then show ?thesis
    by (rule finite_subset) simp
qed

lemma finish_step_kills:
  assumes "isAlive p t"
  shows "\<not> isAlive (finish_step env dst fast t p) t"
  using assms by (simp add: finish_step_def isAlive_def Let_def split: prod.splits)

lemma finish_step_fewer:
  assumes "isAlive p t"
  shows "active (finish_step env dst fast t p) < active p"
proof -
  let ?q = "finish_step env dst fast t p"
  have "{u. isAlive ?q u} \<subseteq> {u. isAlive p u}"
    using isAlive_finish [of env dst fast t p] by blast
  moreover from assms have "t \<in> {u. isAlive p u}" and "t \<notin> {u. isAlive ?q u}"
    by (simp_all add: finish_step_kills)
  ultimately have "{u. isAlive ?q u} \<subset> {u. isAlive p u}"
    by blast
  then have "card {u. isAlive ?q u} < card {u. isAlive p u}"
    by (intro psubset_card_mono finite_alive)
  then show ?thesis
    by (simp add: active_card)
qed

lemma all_threads_end:
  "\<exists>es. (\<forall>t. \<not> isAlive (pool_run env frames dst fast es p) t) \<and>
        pc (pool_run env frames dst fast es p) = pc p \<and>
        running (pool_run env frames dst fast es p) = running p"
proof (induction "active p" arbitrary: p rule: less_induct)
  case less
  show ?case
  proof (cases "\<exists>t. isAlive p t")
    case False
    then have "(\<forall>t. \<not> isAlive (pool_run env frames dst fast [] p) t) \<and>
        pc (pool_run env frames dst fast [] p) = pc p \<and>
        running (pool_run env frames dst fast [] p) = running p"
      by simp
    then show ?thesis
      by (rule exI)
  next
    case True
    then obtain t where t: "isAlive p t"
      by blast
    let ?q = "finish_step env dst fast t p"
    from t have "active ?q < active p"
      by (rule finish_step_fewer)
    then obtain es where es: "\<forall>u. \<not> isAlive (pool_run env frames dst fast es ?q) u"
        "pc (pool_run env frames dst fast es ?q) = pc ?q"
        "running (pool_run env frames dst fast es ?q) = running ?q"
      using less by blast
    have "pool_run env frames dst fast (Finish t # es) p = pool_run env frames dst fast es ?q"
      by simp
    with es finish_step_confined [of env dst fast t p]
    have "(\<forall>u. \<not> isAlive (pool_run env frames dst fast (Finish t # es) p) u) \<and>
        pc (pool_run env frames dst fast (Finish t # es) p) = pc p \<and>
        running (pool_run env frames dst fast (Finish t # es) p) = running p"
      by simp
    then show ?thesis
      by (rule exI)
  qed
qed

lemma joins_return:
  assumes "\<forall>t. \<not> isAlive p t" and "pc p = Join k"
  shows "\<exists>es. pc (pool_run env frames dst fast es p) = Returned"
  using assms
proof (induction "length (running p) - k" arbitrary: p k)
  case 0
  then have "pc (pool_run env frames dst fast [Coord] p) = Returned"
    by (simp add: coord_step_def)
  then show ?case
    by (rule exI)
next
  case (Suc m)
  let ?q = "coord_step env frames dst p"
  from Suc.hyps(2) Suc.prems have q: "?q = p\<lparr>pc := Join (Suc k)\<rparr>"
    by (simp add: coord_step_def)
  with Suc.hyps(2) Suc.prems have "m = length (running ?q) - Suc k" and "\<forall>t. \<not> isAlive ?q t"
      and "pc ?q = Join (Suc k)"
    by (simp_all add: isAlive_frame)
  then obtain es where "pc (pool_run env frames dst fast es ?q) = Returned"
    using Suc.hyps(1) by blast
  then have "pc (pool_run env frames dst fast (Coord # es) p) = Returned"
    by simp
  then show ?case
    by (rule exI)
qed

lemma stopped_extend:
  assumes "\<exists>es. stopped (pc (pool_run env frames dst fast es (pool_run env frames dst fast es0 p)))"
  shows "\<exists>es. stopped (pc (pool_run env frames dst fast es p))"
proof -
  from assms obtain es where "stopped (pc (pool_run env frames dst fast (es0 @ es) p))"
    by (auto simp add: pool_run_append)
  then show ?thesis
    by (rule exI)
qed

lemma claim_then_loop:
  assumes "pc p = Claim idx rest"
  shows "stopped (pc (coord_step env frames dst p)) \<or> pc (coord_step env frames dst p) = Loop rest"
  using assms
  by (auto simp add: coord_step_def stopped_def Let_def spawn_def
      split: prod.splits sum.splits option.splits)

lemma loop_stops:
  assumes "1 \<le> max_optflow_jobs env" and "pc p = Loop idxs"
  shows "\<exists>es. stopped (pc (pool_run env frames dst fast es p))"
  using assms(2)
proof (induction idxs arbitrary: p)
  case Nil
  obtain es where es: "\<forall>t. \<not> isAlive (pool_run env frames dst fast es p) t"
      "pc (pool_run env frames dst fast es p) = pc p"
    using all_threads_end [of env frames dst fast p] by blast
  let ?q = "pool_run env frames dst fast es p"
  let ?q' = "coord_step env frames dst ?q"
  from es Nil have "pc ?q' = Join 0" and "\<forall>t. \<not> isAlive ?q' t"
    by (simp_all add: coord_step_def isAlive_frame)
  then obtain es' where "pc (pool_run env frames dst fast es' ?q') = Returned"
    using joins_return [where p = ?q' and k = 0 and env = env and frames = frames and dst = dst
        and fast = fast] by blast
  then have "stopped (pc (pool_run env frames dst fast (es @ Coord # es') p))"
    by (simp add: pool_run_append stopped_def)
  then show ?case
    by (rule exI)
next
  case (Cons idx rest)
  obtain es where es: "\<forall>t. \<not> isAlive (pool_run env frames dst fast es p) t"
      "pc (pool_run env frames dst fast es p) = pc p"
    using all_threads_end [of env frames dst fast p] by blast
  let ?q = "pool_run env frames dst fast es p"
  have "\<exists>es'. pc (pool_run env frames dst fast es' ?q) = Claim idx rest"
  proof (cases "max_optflow_jobs env \<le> int (length (running ?q))")
    case False
    with es Cons.prems have "pc (pool_run env frames dst fast [Coord] ?q) = Claim idx rest"
      by (simp add: coord_step_def)
    then show ?thesis
      by (rule exI)
  next
    case True
    let ?q1 = "coord_step env frames dst ?q"
    from True es Cons.prems have q1: "?q1 = ?q\<lparr>running := []\<rparr>"
      by (simp add: coord_step_def)
    with es Cons.prems assms(1) have "coord_step env frames dst ?q1 = ?q1\<lparr>pc := Claim idx rest\<rparr>"
      by (simp add: coord_step_def)
    then have "pc (pool_run env frames dst fast [Coord, Coord] ?q) = Claim idx rest"
      by simp
    then show ?thesis
      by (rule exI)
  qed
  then obtain es' where es': "pc (pool_run env frames dst fast es' ?q) = Claim idx rest"
    by blast
  let ?r = "pool_run env frames dst fast (es @ es') p"
  from es' have r: "pc ?r = Claim idx rest"
    by (simp add: pool_run_append)
  from claim_then_loop [OF r, of env frames dst]
  have "\<exists>es2. stopped (pc (pool_run env frames dst fast es2 (coord_step env frames dst ?r)))"
  proof
    assume "stopped (pc (coord_step env frames dst ?r))"
    then have "stopped (pc (pool_run env frames dst fast [] (coord_step env frames dst ?r)))"
      by simp
    then show ?thesis
      by (rule exI)
  next
    assume "pc (coord_step env frames dst ?r) = Loop rest"
    then show ?thesis
      by (rule Cons.IH)
  qed
  then obtain es2 where "stopped (pc (pool_run env frames dst fast ((es @ es') @ Coord # es2) p))"
    by (auto simp add: pool_run_append)
  then show ?case
    by (rule exI)
qed

lemma pool_stops:
  assumes "1 \<le> max_optflow_jobs env"
  shows "\<exists>es. stopped (pc (pool_run env frames dst fast es p))"
proof (cases "pc p")
  case (Loop idxs)
  with assms show ?thesis
    by (rule loop_stops)
next
  case (Claim idx rest)
  from claim_then_loop [OF Claim, of env frames dst]
  have "\<exists>es. stopped (pc (pool_run env frames dst fast es (pool_run env frames dst fast [Coord] p)))"
  proof
    assume "stopped (pc (coord_step env frames dst p))"
    then have "stopped (pc (pool_run env frames dst fast [] (pool_run env frames dst fast [Coord] p)))"
      by simp
    then show ?thesis
      by (rule exI)
  next
    assume "pc (coord_step env frames dst p) = Loop rest"
    then have "pc (pool_run env frames dst fast [Coord] p) = Loop rest"
      by simp
    with assms show ?thesis
      by (rule loop_stops)
  qed
  then show ?thesis
    by (rule stopped_extend)
next
  case (Join k)
  obtain es where es: "\<forall>t. \<not> isAlive (pool_run env frames dst fast es p) t"
      "pc (pool_run env frames dst fast es p) = pc p"
    using all_threads_end [of env frames dst fast p] by blast
  with Join obtain es' where
    "pc (pool_run env frames dst fast es' (pool_run env frames dst fast es p)) = Returned"
    using joins_return [where p = "pool_run env frames dst fast es p" and k = k and env = env
        and frames = frames and dst = dst and fast = fast] by auto
  then have "\<exists>es'. stopped (pc (pool_run env frames dst fast es' (pool_run env frames dst fast es p)))"
    by (auto simp add: stopped_def)
  then show ?thesis
    by (rule stopped_extend)
next
  case Returned
  then have "stopped (pc (pool_run env frames dst fast [] p))"
    by (simp add: stopped_def)
  then show ?thesis
    by (rule exI)
next
  case (Raised e)
  then have "stopped (pc (pool_run env frames dst fast [] p))"
    by (simp add: stopped_def)
  then show ?thesis
    by (rule exI)
qed

lemma optflow_can_end:
  assumes "1 \<le> max_optflow_jobs env"
  shows "\<exists>es'. stopped (pc (optflow env start frames dst fast s (es @ es')))"
  unfolding optflow_def pool_run_append using assms by (rule pool_stops)

text \<open>
  Claim C7. In every state of an execution of \<^verbatim>\<open>optflow(start, frames, dst)\<close>, the indices
  that \<^verbatim>\<open>claim_job\<close> has been called with are an initial part of
  \<open>start + 1, ..., start + n - 1\<close> for \<open>n\<close> frames, so they are strictly increasing and no
  index is attempted twice; once \<^verbatim>\<open>optflow\<close> has returned they are all of them, and no
  thread it started is still running. And it can return: with a maximum of at least one,
  every execution can be continued until \<^verbatim>\<open>optflow\<close> has returned or \<^verbatim>\<open>claim_job\<close> has
  raised.
\<close>

theorem optflow_claims_in_order:
  "(\<exists>later. attempts (optflow env start frames dst fast s es) @ later =
      [start + 1 .. start + int (length frames) - 1]) \<and>
   sorted_wrt (<) (attempts (optflow env start frames dst fast s es)) \<and>
   distinct (attempts (optflow env start frames dst fast s es)) \<and>
   (pc (optflow env start frames dst fast s es) = Returned \<longrightarrow>
      attempts (optflow env start frames dst fast s es) =
        [start + 1 .. start + int (length frames) - 1] \<and>
      active (optflow env start frames dst fast s es) = 0) \<and>
   (1 \<le> max_optflow_jobs env \<longrightarrow>
      (\<exists>es'. stopped (pc (optflow env start frames dst fast s (es @ es')))))"
proof -
  let ?p = "optflow env start frames dst fast s es"
  let ?all = "[start + 1 .. start + int (length frames) - 1]"
  have l: "inv_log (job_range start frames) ?p"
    unfolding optflow_def by (intro inv_log_run inv_log_init)
  have j: "inv_join ?p"
    unfolding optflow_def by (intro inv_join_run inv_join_init)
  have r: "inv_run ?p"
    unfolding optflow_def by (intro inv_run_run inv_run_init)
  from l obtain later where later: "attempts ?p @ later = ?all"
    by (auto simp add: inv_log_def claimed_indices split: option.splits)
  have "sorted_wrt (<) ?all"
    by simp
  then have sorted: "sorted_wrt (<) (attempts ?p)"
    unfolding later [symmetric] by (simp add: sorted_wrt_append)
  have ret: "attempts ?p = ?all \<and> active ?p = 0" if "pc ?p = Returned"
  proof
    from l that show "attempts ?p = ?all"
      by (simp add: inv_log_def pending_def claimed_indices)
    from j r that have "{t. isAlive ?p t} = {}"
      by (auto simp add: inv_join_def inv_run_def)
    then show "active ?p = 0"
      by (simp add: active_card)
  qed
  have "distinct ?all"
    by simp
  then have dist: "distinct (attempts ?p)"
    unfolding later [symmetric] by simp
  have fin: "\<exists>es'. stopped (pc (optflow env start frames dst fast s (es @ es')))"
    if "1 \<le> max_optflow_jobs env"
    using that by (rule optflow_can_end)
  from later sorted dist ret fin show ?thesis
    by blast
qed

lemma short_claimed_end: "\<not> exists_file short_claimed ''d/frame_2.ppm''"
  by (simp add: short_claimed_def short_dir_def exists_file_def)

lemma done_run:
  "optflow toy_env 0 [''a'', ''b''] ''d'' True short_dir [Coord, Coord, Coord, Finish 0, Coord, Coord] =
     done_pool"
proof -
  let ?t1 = "\<lparr>job = 1, job_start = ''d/frame_1.ppm'', job_end = ''d/frame_2.ppm'', status = Alive\<rparr>"
  let ?t1' = "\<lparr>job = 1, job_start = ''d/frame_1.ppm'', job_end = ''d/frame_2.ppm'',
                status = Ended (Inl CvError)\<rparr>"
  let ?p0 = "\<lparr>pc = Loop [0], running = [], threads = [], disk = short_dir, attempts = []\<rparr>"
  let ?p1 = "\<lparr>pc = Claim 0 [], running = [], threads = [], disk = short_dir, attempts = []\<rparr>"
  let ?p2 = "\<lparr>pc = Loop [], running = [0], threads = [?t1], disk = short_claimed, attempts = [1]\<rparr>"
  let ?p3 = "\<lparr>pc = Join 0, running = [0], threads = [?t1], disk = short_claimed, attempts = [1]\<rparr>"
  let ?p4 = "\<lparr>pc = Join 0, running = [0], threads = [?t1'], disk = short_claimed, attempts = [1]\<rparr>"
  let ?p5 = "\<lparr>pc = Join (Suc 0), running = [0], threads = [?t1'], disk = short_claimed, attempts = [1]\<rparr>"
  have 0: "init_pool 0 [''a'', ''b''] short_dir = ?p0"
    by (simp add: init_pool_def job_range_def)
  have 1: "coord_step toy_env [''a'', ''b''] ''d'' ?p0 = ?p1"
    by (simp add: coord_step_room toy_max)
  have 2: "coord_step toy_env [''a'', ''b''] ''d'' ?p1 = ?p2"
    by (simp add: coord_step_claimed [where a = "''d/frame_1.ppm''" and b = "''d/frame_2.ppm''"
          and s = short_claimed] short_claim spawn_def)
  have 3: "coord_step toy_env [''a'', ''b''] ''d'' ?p2 = ?p3"
    by (simp add: coord_step_def)
  have 4: "finish_step toy_env ''d'' True 0 ?p3 = ?p4"
    by (simp add: finish_step_def isAlive_def run_job_without_frame_fast short_claimed_end)
  have 5: "coord_step toy_env [''a'', ''b''] ''d'' ?p4 = ?p5"
    by (simp add: coord_step_def isAlive_def)
  have 6: "coord_step toy_env [''a'', ''b''] ''d'' ?p5 = done_pool"
    by (simp add: coord_step_def done_pool_def)
  show ?thesis
    by (simp add: optflow_def 0 1 2 3 4 5 6)
qed

theorem optflow_claims_in_order_witness:
  "pc (optflow toy_env 0 [''a'', ''b''] ''d'' True short_dir [Coord, Coord, Coord, Finish 0, Coord, Coord]) =
     Returned \<and>
   attempts (optflow toy_env 0 [''a'', ''b''] ''d'' True short_dir
     [Coord, Coord, Coord, Finish 0, Coord, Coord]) = [0 + 1 .. 0 + int (length [''a'', ''b'']) - 1] \<and>
   active (optflow toy_env 0 [''a'', ''b''] ''d'' True short_dir
     [Coord, Coord, Coord, Finish 0, Coord, Coord]) = 0 \<and>
   1 \<le> max_optflow_jobs toy_env \<and>
   (\<exists>es'. stopped (pc (optflow toy_env 0 [''a'', ''b''] ''d'' True short_dir ([Coord, Coord] @ es'))))"
proof -
  have r: "pc (optflow toy_env 0 [''a'', ''b''] ''d'' True short_dir
      [Coord, Coord, Coord, Finish 0, Coord, Coord]) = Returned"
    by (simp add: done_run done_pool_def)
  have m: "1 \<le> max_optflow_jobs toy_env"
    by (simp add: toy_max)
  from r optflow_claims_in_order [where env = toy_env and start = 0 and frames = "[''a'', ''b'']"
      and dst = "''d''" and fast = True and s = short_dir
      and es = "[Coord, Coord, Coord, Finish 0, Coord, Coord]"]
  have 1: "attempts (optflow toy_env 0 [''a'', ''b''] ''d'' True short_dir
     [Coord, Coord, Coord, Finish 0, Coord, Coord]) = [0 + 1 .. 0 + int (length [''a'', ''b'']) - 1] \<and>
   active (optflow toy_env 0 [''a'', ''b''] ''d'' True short_dir
     [Coord, Coord, Coord, Finish 0, Coord, Coord]) = 0"
    by blast
  from m optflow_claims_in_order [where env = toy_env and start = 0 and frames = "[''a'', ''b'']"
      and dst = "''d''" and fast = True and s = short_dir and es = "[Coord, Coord]"]
  have 2: "\<exists>es'. stopped (pc (optflow toy_env 0 [''a'', ''b''] ''d'' True short_dir ([Coord, Coord] @ es')))"
    by blast
  from r m 1 2 show ?thesis
    by blast
qed

section \<open>The pool: fewer than two frames\<close>

lemma idle_returned:
  "pool_run env frames dst fast es \<lparr>pc = Returned, running = [], threads = [], disk = s, attempts = []\<rparr> =
     \<lparr>pc = Returned, running = [], threads = [], disk = env_only es s, attempts = []\<rparr>"
proof (induction es arbitrary: s)
  case Nil
  show ?case by simp
next
  case (Cons e es)
  then show ?case
    by (cases e) (simp_all add: coord_step_def finish_step_def isAlive_def)
qed

lemma idle_join:
  "pool_run env frames dst fast es \<lparr>pc = Join 0, running = [], threads = [], disk = s, attempts = []\<rparr> =
     \<lparr>pc = (if count_list es Coord = 0 then Join 0 else Returned),
      running = [], threads = [], disk = env_only es s, attempts = []\<rparr>"
proof (induction es arbitrary: s)
  case Nil
  show ?case by simp
next
  case (Cons e es)
  then show ?case
    by (cases e) (simp_all add: coord_step_def finish_step_def isAlive_def idle_returned)
qed

lemma idle_loop:
  "pool_run env frames dst fast es \<lparr>pc = Loop [], running = [], threads = [], disk = s, attempts = []\<rparr> =
     \<lparr>pc = (if count_list es Coord = 0 then Loop []
            else if count_list es Coord = 1 then Join 0 else Returned),
      running = [], threads = [], disk = env_only es s, attempts = []\<rparr>"
proof (induction es arbitrary: s)
  case Nil
  show ?case by simp
next
  case (Cons e es)
  then show ?case
    by (cases e) (simp_all add: coord_step_def finish_step_def isAlive_def idle_join)
qed

text \<open>
  Claim C10. With fewer than two frames, in every state of an execution of \<^verbatim>\<open>optflow\<close>: no
  claim has been attempted, no thread exists, the directory has been changed by the
  other workers only (so no placeholder was created), and the coordinator is never in an
  exception: after its second step it has returned.
\<close>

theorem optflow_too_few_frames:
  assumes "length frames < 2"
  shows "attempts (optflow env start frames dst fast s es) = [] \<and>
     threads (optflow env start frames dst fast s es) = [] \<and>
     active (optflow env start frames dst fast s es) = 0 \<and>
     disk (optflow env start frames dst fast s es) = env_only es s \<and>
     pc (optflow env start frames dst fast s es) =
       (if count_list es Coord = 0 then Loop []
        else if count_list es Coord = 1 then Join 0 else Returned)"
proof -
  from assms have "job_range start frames = []"
    by (simp add: job_range_def)
  then show ?thesis
    by (simp add: optflow_def init_pool_def idle_loop active_def)
qed

theorem optflow_too_few_frames_witness:
  "length [''frame_1.ppm''] < 2 \<and>
   pc (optflow toy_env 0 [''frame_1.ppm''] ''d'' False toy_dir
     [Coord, Env (\<lambda>s. s\<lparr>files := (files s)(''d/x'' \<mapsto> [])\<rparr>), Coord]) = Returned \<and>
   attempts (optflow toy_env 0 [''frame_1.ppm''] ''d'' False toy_dir
     [Coord, Env (\<lambda>s. s\<lparr>files := (files s)(''d/x'' \<mapsto> [])\<rparr>), Coord]) = [] \<and>
   disk (optflow toy_env 0 [''frame_1.ppm''] ''d'' False toy_dir
     [Coord, Env (\<lambda>s. s\<lparr>files := (files s)(''d/x'' \<mapsto> [])\<rparr>), Coord]) =
     toy_dir\<lparr>files := (files toy_dir)(''d/x'' \<mapsto> [])\<rparr>"
proof -
  have h: "length [''frame_1.ppm''] < 2"
    by simp
  from optflow_too_few_frames [OF h, where env = toy_env and start = 0 and dst = "''d''" and fast = False
      and s = toy_dir and es = "[Coord, Env (\<lambda>s. s\<lparr>files := (files s)(''d/x'' \<mapsto> [])\<rparr>), Coord]"]
  show ?thesis
    by simp
qed

section \<open>Racing claimants\<close>

lemma claim_step_Start:
  "claim_step env idx dst Start s =
     (if exists_file s (placeholder_path env dst idx) then (Done None, s)
      else case fault s (placeholder_path env dst idx) of
             Some e \<Rightarrow> (Failed (os_error e), s)
           | None \<Rightarrow> (Opened, s\<lparr>files := (files s)(placeholder_path env dst idx \<mapsto> [])\<rparr>))"
  by (simp add: claim_step_def open_x_def os_error_not_exists split: option.splits)

lemma claim_step_Opened:
  "claim_step env idx dst Opened s =
     (Done (Some (pjoin dst (frame_name env idx), pjoin dst (frame_name env (idx + 1)))),
      append_file (placeholder_path env dst idx) (placeholder_text env) s)"
  by (simp add: claim_step_def)

lemma claim_step_finished:
  "finished c \<Longrightarrow> claim_step env idx dst c s = (c, s)"
  by (cases c) (simp_all add: claim_step_def)

text \<open>The two steps of a claimant, run without interruption, are \<^verbatim>\<open>claim_job\<close>.\<close>

lemma claim_job_as_steps:
  "claim_job env idx frames dst s =
     (case claim_step env idx dst Start s of
        (Opened, s1) \<Rightarrow>
          (case claim_step env idx dst Opened s1 of
             (Done r, s2) \<Rightarrow> (Inr r, s2)
           | (c, s2) \<Rightarrow> (Inr None, s2))
      | (Done r, s1) \<Rightarrow> (Inr r, s1)
      | (Failed e, s1) \<Rightarrow> (Inl e, s1)
      | (Start, s1) \<Rightarrow> (Inr None, s1))"
  by (simp add: claim_job_def claim_step_Start claim_step_Opened open_x_def Let_def os_error_not_exists
      split: option.splits)

lemma not_succeeded_Start: "\<not> succeeded Start"
  by simp

lemma race_inv_init: "race_inv P (length envs) s (init_race envs s)"
  by (simp add: race_inv_def init_race_def)

lemma race_invI:
  assumes "length (cpcs r) = n" and "fault (rdisk r) = fault s0"
    and "exists_file s0 P \<Longrightarrow> exists_file (rdisk r) P"
    and "\<And>i. i < n \<Longrightarrow> succeeded (cpcs r ! i) \<Longrightarrow> exists_file (rdisk r) P \<and> \<not> exists_file s0 P"
    and "\<And>i j. i < n \<Longrightarrow> succeeded (cpcs r ! i) \<Longrightarrow> j < n \<Longrightarrow> j \<noteq> i \<Longrightarrow> quiet (cpcs r ! j)"
    and "\<And>i. \<not> exists_file (rdisk r) P \<Longrightarrow> fault s0 P = None \<Longrightarrow> i < n \<Longrightarrow> cpcs r ! i = Start"
    and "exists_file (rdisk r) P \<Longrightarrow> \<not> exists_file s0 P \<Longrightarrow> \<exists>i<n. succeeded (cpcs r ! i)"
  shows "race_inv P n s0 r"
  unfolding race_inv_def using assms by blast

lemma race_invD:
  assumes "race_inv P n s0 r"
  shows "length (cpcs r) = n" and "fault (rdisk r) = fault s0"
    and "exists_file s0 P \<Longrightarrow> exists_file (rdisk r) P"
    and "\<And>i. i < n \<Longrightarrow> succeeded (cpcs r ! i) \<Longrightarrow> exists_file (rdisk r) P \<and> \<not> exists_file s0 P"
    and "\<And>i j. i < n \<Longrightarrow> succeeded (cpcs r ! i) \<Longrightarrow> j < n \<Longrightarrow> j \<noteq> i \<Longrightarrow> quiet (cpcs r ! j)"
    and "\<And>i. \<not> exists_file (rdisk r) P \<Longrightarrow> fault s0 P = None \<Longrightarrow> i < n \<Longrightarrow> cpcs r ! i = Start"
    and "exists_file (rdisk r) P \<Longrightarrow> \<not> exists_file s0 P \<Longrightarrow> \<exists>i<n. succeeded (cpcs r ! i)"
  using assms unfolding race_inv_def by blast+

lemma quiet_not_succeeded: "quiet c \<Longrightarrow> \<not> succeeded c"
  by (auto simp add: quiet_def)

lemma race_inv_quiet_move:
  assumes inv: "race_inv P n s0 r" and i: "i < n" and at: "cpcs r ! i = Start"
    and ex: "exists_file (rdisk r) P"
  shows "race_inv P n s0 \<lparr>cpcs = (cpcs r)[i := Done None], rdisk = rdisk r\<rparr>"
proof (rule race_invI)
  note d = race_invD [OF inv]
  let ?r = "\<lparr>cpcs = (cpcs r)[i := Done None], rdisk = rdisk r\<rparr>"
  have nth: "(cpcs r)[i := Done None] ! j = (if j = i then Done None else cpcs r ! j)" if "j < n" for j
    using that d(1) by (simp add: nth_list_update)
  show "length (cpcs ?r) = n"
    using d(1) by simp
  show "fault (rdisk ?r) = fault s0"
    using d(2) by simp
  show "exists_file (rdisk ?r) P" if "exists_file s0 P"
    using ex by simp
  show "exists_file (rdisk ?r) P \<and> \<not> exists_file s0 P" if "j < n" "succeeded (cpcs ?r ! j)" for j
    using that d(4) [of j] by (simp add: nth split: if_splits)
  show "quiet (cpcs ?r ! k)" if "j < n" "succeeded (cpcs ?r ! j)" "k < n" "k \<noteq> j" for j k
    using that d(5) [of j k] by (simp add: nth quiet_def split: if_splits)
  show "cpcs ?r ! j = Start" if "\<not> exists_file (rdisk ?r) P" for j
    using that ex by simp
  show "\<exists>j<n. succeeded (cpcs ?r ! j)" if "exists_file (rdisk ?r) P" "\<not> exists_file s0 P"
  proof -
    from that d(7) obtain j where j: "j < n" "succeeded (cpcs r ! j)"
      by auto
    with at have "j \<noteq> i"
      by auto
    with j show ?thesis
      by (auto simp add: nth)
  qed
qed

lemma race_inv_failed_move:
  assumes inv: "race_inv P n s0 r" and i: "i < n" and at: "cpcs r ! i = Start"
    and nex: "\<not> exists_file (rdisk r) P" and flt: "fault (rdisk r) P = Some e"
  shows "race_inv P n s0 \<lparr>cpcs = (cpcs r)[i := Failed x], rdisk = rdisk r\<rparr>"
proof (rule race_invI)
  note d = race_invD [OF inv]
  let ?r = "\<lparr>cpcs = (cpcs r)[i := Failed x], rdisk = rdisk r\<rparr>"
  have nth: "(cpcs r)[i := Failed x] ! j = (if j = i then Failed x else cpcs r ! j)" if "j < n" for j
    using that d(1) by (simp add: nth_list_update)
  have none: "\<not> succeeded (cpcs r ! j)" if "j < n" for j
    using that d(4) [of j] nex by blast
  show "length (cpcs ?r) = n"
    using d(1) by simp
  show "fault (rdisk ?r) = fault s0"
    using d(2) by simp
  show "exists_file (rdisk ?r) P" if "exists_file s0 P"
    using that d(3) by simp
  show "exists_file (rdisk ?r) P \<and> \<not> exists_file s0 P" if "j < n" "succeeded (cpcs ?r ! j)" for j
    using that none [of j] by (simp add: nth split: if_splits)
  show "quiet (cpcs ?r ! k)" if "j < n" "succeeded (cpcs ?r ! j)" "k < n" "k \<noteq> j" for j k
    using that none [of j] by (simp add: nth split: if_splits)
  show "cpcs ?r ! j = Start" if "fault s0 P = None" for j
    using that flt d(2) by simp
  show "\<exists>j<n. succeeded (cpcs ?r ! j)" if "exists_file (rdisk ?r) P"
    using that nex by simp
qed

lemma race_inv_create_move:
  assumes inv: "race_inv P n s0 r" and i: "i < n" and at: "cpcs r ! i = Start"
    and nex: "\<not> exists_file (rdisk r) P" and flt: "fault (rdisk r) P = None"
  shows "race_inv P n s0
     \<lparr>cpcs = (cpcs r)[i := Opened], rdisk = (rdisk r)\<lparr>files := (files (rdisk r))(P \<mapsto> [])\<rparr>\<rparr>"
proof (rule race_invI)
  note d = race_invD [OF inv]
  let ?r = "\<lparr>cpcs = (cpcs r)[i := Opened], rdisk = (rdisk r)\<lparr>files := (files (rdisk r))(P \<mapsto> [])\<rparr>\<rparr>"
  have nth: "(cpcs r)[i := Opened] ! j = (if j = i then Opened else cpcs r ! j)" if "j < n" for j
    using that d(1) by (simp add: nth_list_update)
  from flt d(2) have flt0: "fault s0 P = None"
    by simp
  have start: "cpcs r ! j = Start" if "j < n" for j
    using that d(6) [of j] nex flt0 by simp
  from nex d(3) have nex0: "\<not> exists_file s0 P"
    by blast
  have now: "exists_file (rdisk ?r) P"
    by (simp add: exists_file_def)
  show "length (cpcs ?r) = n"
    using d(1) by simp
  show "fault (rdisk ?r) = fault s0"
    using d(2) by simp
  show "exists_file (rdisk ?r) P" if "exists_file s0 P"
    by (rule now)
  show "exists_file (rdisk ?r) P \<and> \<not> exists_file s0 P" if "j < n" "succeeded (cpcs ?r ! j)" for j
    using now nex0 by simp
  show "quiet (cpcs ?r ! k)" if "j < n" "succeeded (cpcs ?r ! j)" "k < n" "k \<noteq> j" for j k
    using that start [of j] start [of k] by (simp add: nth quiet_def split: if_splits)
  show "cpcs ?r ! j = Start" if "\<not> exists_file (rdisk ?r) P" for j
    using that now by simp
  show "\<exists>j<n. succeeded (cpcs ?r ! j)"
    using i by (auto simp add: nth intro!: exI [of _ i])
qed

lemma race_inv_write_move:
  assumes inv: "race_inv P n s0 r" and i: "i < n" and at: "cpcs r ! i = Opened"
  shows "race_inv P n s0 \<lparr>cpcs = (cpcs r)[i := Done (Some x)], rdisk = append_file P bs (rdisk r)\<rparr>"
proof (rule race_invI)
  note d = race_invD [OF inv]
  let ?r = "\<lparr>cpcs = (cpcs r)[i := Done (Some x)], rdisk = append_file P bs (rdisk r)\<rparr>"
  have nth: "(cpcs r)[i := Done (Some x)] ! j = (if j = i then Done (Some x) else cpcs r ! j)" if "j < n" for j
    using that d(1) by (simp add: nth_list_update)
  from at have si: "succeeded (cpcs r ! i)"
    by simp
  have now: "exists_file (rdisk ?r) P"
    by (simp add: exists_file_def append_file_def)
  from d(4) [OF i si] have nex0: "\<not> exists_file s0 P"
    by simp
  have same: "succeeded ((cpcs r)[i := Done (Some x)] ! j) = succeeded (cpcs r ! j)" if "j < n" for j
    using that si by (simp add: nth)
  show "length (cpcs ?r) = n"
    using d(1) by simp
  show "fault (rdisk ?r) = fault s0"
    using d(2) by (simp add: append_file_def)
  show "exists_file (rdisk ?r) P" if "exists_file s0 P"
    by (rule now)
  show "exists_file (rdisk ?r) P \<and> \<not> exists_file s0 P" if "j < n" "succeeded (cpcs ?r ! j)" for j
    using now nex0 by simp
  show "quiet (cpcs ?r ! k)" if "j < n" "succeeded (cpcs ?r ! j)" "k < n" "k \<noteq> j" for j k
  proof -
    from that(1,2) have sj: "succeeded (cpcs r ! j)"
      by (simp add: same)
    have "j = i"
    proof (rule ccontr)
      assume "j \<noteq> i"
      with d(5) [OF that(1) sj i] have "quiet (cpcs r ! i)"
        by simp
      with si show False
        by (simp add: quiet_not_succeeded)
    qed
    with that d(5) [OF i si that(3)] show ?thesis
      by (simp add: nth)
  qed
  show "cpcs ?r ! j = Start" if "\<not> exists_file (rdisk ?r) P" for j
    using that now by simp
  show "\<exists>j<n. succeeded (cpcs ?r ! j)"
    using i si by (auto simp add: same)
qed

lemma race_inv_step:
  assumes inv: "race_inv P (length envs) s0 r"
    and same: "\<forall>e\<in>set envs. placeholder_path e dst idx = P"
  shows "race_inv P (length envs) s0 (race_step envs idx dst i r)"
proof (cases "i < length envs")
  case False
  with inv show ?thesis
    by (simp add: race_step_def)
next
  case True
  from inv have len: "length (cpcs r) = length envs"
    by (rule race_invD)
  from True same have P: "placeholder_path (envs ! i) dst idx = P"
    by simp
  show ?thesis
  proof (cases "cpcs r ! i")
    case Start
    show ?thesis
    proof (cases "exists_file (rdisk r) P")
      case ex: True
      with Start True len P have "race_step envs idx dst i r =
          \<lparr>cpcs = (cpcs r)[i := Done None], rdisk = rdisk r\<rparr>"
        by (simp add: race_step_def claim_step_Start)
      with inv True Start ex show ?thesis
        by (simp add: race_inv_quiet_move)
    next
      case nex: False
      show ?thesis
      proof (cases "fault (rdisk r) P")
        case (Some e)
        with Start True len P nex have "race_step envs idx dst i r =
            \<lparr>cpcs = (cpcs r)[i := Failed (os_error e)], rdisk = rdisk r\<rparr>"
          by (simp add: race_step_def claim_step_Start)
        with inv True Start nex Some show ?thesis
          by (simp add: race_inv_failed_move)
      next
        case None
        with Start True len P nex have "race_step envs idx dst i r =
            \<lparr>cpcs = (cpcs r)[i := Opened], rdisk = (rdisk r)\<lparr>files := (files (rdisk r))(P \<mapsto> [])\<rparr>\<rparr>"
          by (simp add: race_step_def claim_step_Start)
        with inv True Start nex None show ?thesis
          by (simp add: race_inv_create_move)
      qed
    qed
  next
    case Opened
    with True len P have "race_step envs idx dst i r =
         \<lparr>cpcs = (cpcs r)[i := Done (Some (pjoin dst (frame_name (envs ! i) idx),
                                            pjoin dst (frame_name (envs ! i) (idx + 1))))],
          rdisk = append_file P (placeholder_text (envs ! i)) (rdisk r)\<rparr>"
      by (simp add: race_step_def claim_step_Opened)
    with inv True Opened show ?thesis
      by (simp add: race_inv_write_move)
  next
    case (Done res)
    with True len have "race_step envs idx dst i r = r"
      by (simp add: race_step_def claim_step_finished list_update_same_conv)
    with inv show ?thesis by simp
  next
    case (Failed e)
    with True len have "race_step envs idx dst i r = r"
      by (simp add: race_step_def claim_step_finished list_update_same_conv)
    with inv show ?thesis by simp
  qed
qed

lemma race_inv_run:
  assumes "\<forall>e\<in>set envs. placeholder_path e dst idx = P"
  shows "race_inv P (length envs) s0 r \<Longrightarrow> race_inv P (length envs) s0 (race_run envs idx dst sched r)"
  using assms by (induction sched arbitrary: r) (simp_all add: race_inv_step)

lemma filter_le_one:
  assumes "\<And>i j. i < length xs \<Longrightarrow> j < length xs \<Longrightarrow> Q (xs ! i) \<Longrightarrow> Q (xs ! j) \<Longrightarrow> i = j"
  shows "length (filter Q xs) \<le> 1"
proof -
  let ?S = "{i. i < length xs \<and> Q (xs ! i)}"
  have "card ?S \<le> 1"
  proof (cases "?S = {}")
    case True
    show ?thesis unfolding True by simp
  next
    case False
    then obtain a where a: "a \<in> ?S"
      by blast
    with assms have "?S \<subseteq> {a}"
      by blast
    then have "card ?S \<le> card {a}"
      by (intro card_mono) simp_all
    then show ?thesis by simp
  qed
  then show ?thesis
    by (simp add: length_filter_conv_card)
qed

lemma filter_ge_one:
  assumes "i < length xs" and "Q (xs ! i)"
  shows "1 \<le> length (filter Q xs)"
proof -
  from assms have "filter Q xs \<noteq> []"
    by (auto simp add: filter_empty_conv)
  then show ?thesis
    by (cases "filter Q xs") simp_all
qed

text \<open>
  Claim C1. Any number of claimants (threads or processes, each with its own host name)
  call \<^verbatim>\<open>claim_job\<close> for the same index on the same shared directory and form the same
  placeholder name; their steps interleave in any order. In every state of the race at
  most one claimant has succeeded, and when one has, every other claimant has either not
  attempted its create yet or has returned "no job". If the index was unclaimed and its
  placeholder can be created, then as soon as one claimant has moved exactly one has
  succeeded. The only step in which a claimant looks at the directory is its exclusive
  create, one step of the file system.
\<close>

theorem exclusive_claim:
  assumes "\<forall>e\<in>set envs. placeholder_path e dst idx = P"
  shows "length (filter succeeded (cpcs (race_after envs idx dst s sched))) \<le> 1 \<and>
     (\<forall>i<length envs. \<forall>j<length envs.
        succeeded (cpcs (race_after envs idx dst s sched) ! i) \<and> j \<noteq> i \<longrightarrow>
          cpcs (race_after envs idx dst s sched) ! j = Start \<or>
          cpcs (race_after envs idx dst s sched) ! j = Done None) \<and>
     (\<not> exists_file s P \<and> fault s P = None \<and>
      (\<exists>i<length envs. cpcs (race_after envs idx dst s sched) ! i \<noteq> Start) \<longrightarrow>
        length (filter succeeded (cpcs (race_after envs idx dst s sched))) = 1)"
proof -
  let ?r = "race_after envs idx dst s sched"
  let ?n = "length envs"
  have inv: "race_inv P ?n s ?r"
    unfolding race_after_def using assms by (intro race_inv_run race_inv_init)
  note d = race_invD [OF inv]
  have uniq: "i = j" if "i < ?n" "j < ?n" "succeeded (cpcs ?r ! i)" "succeeded (cpcs ?r ! j)" for i j
  proof (rule ccontr)
    assume "i \<noteq> j"
    with d(5) [OF that(1,3,2)] have "quiet (cpcs ?r ! j)"
      by simp
    with that(4) show False
      by (simp add: quiet_not_succeeded)
  qed
  have 1: "length (filter succeeded (cpcs ?r)) \<le> 1"
    by (rule filter_le_one) (use uniq d(1) in auto)
  have 2: "\<forall>i<?n. \<forall>j<?n. succeeded (cpcs ?r ! i) \<and> j \<noteq> i \<longrightarrow>
      cpcs ?r ! j = Start \<or> cpcs ?r ! j = Done None"
    using d(5) by (auto simp add: quiet_def)
  have 3: "length (filter succeeded (cpcs ?r)) = 1"
    if "\<not> exists_file s P \<and> fault s P = None \<and> (\<exists>i<?n. cpcs ?r ! i \<noteq> Start)"
  proof -
    from that d(6) have "exists_file (rdisk ?r) P"
      by blast
    with that d(7) obtain i where "i < ?n" "succeeded (cpcs ?r ! i)"
      by blast
    with d(1) have "1 \<le> length (filter succeeded (cpcs ?r))"
      by (intro filter_ge_one [of i]) simp_all
    with 1 show ?thesis
      by simp
  qed
  from 1 2 3 show ?thesis
    by blast
qed

lemma rivals_placeholder: "\<forall>e\<in>set rivals. placeholder_path e ''d'' 1 = ''d/frame_1.plc''"
  by (simp add: rivals_def names_defs toy_env_def)

lemma rivals_race:
  "cpcs (race_after rivals 1 ''d'' toy_dir [1, 0, 1, 2]) =
     [Done None, Done (Some (''d/frame_1.ppm'', ''d/frame_2.ppm'')), Done None]"
proof -
  let ?a = "toy_dir\<lparr>files := (files toy_dir)(''d/frame_1.plc'' \<mapsto> [])\<rparr>"
  let ?b = "append_file ''d/frame_1.plc'' (placeholder_text (toy_env\<lparr>node := ''second''\<rparr>)) ?a"
  have P: "placeholder_path (rivals ! 0) ''d'' 1 = ''d/frame_1.plc''"
      "placeholder_path (rivals ! Suc 0) ''d'' 1 = ''d/frame_1.plc''"
      "placeholder_path (rivals ! 2) ''d'' 1 = ''d/frame_1.plc''"
    by (simp_all add: rivals_def names_defs toy_env_def)
  have len: "length rivals = 3"
    by (simp add: rivals_def)
  have names: "pjoin ''d'' (frame_name (rivals ! Suc 0) 1) = ''d/frame_1.ppm''"
      "pjoin ''d'' (frame_name (rivals ! Suc 0) 2) = ''d/frame_2.ppm''"
    by (simp_all add: rivals_def names_defs toy_env_def)
  have ea: "exists_file ?a ''d/frame_1.plc''" and eb: "exists_file ?b ''d/frame_1.plc''"
    by (simp_all add: exists_file_def append_file_def)
  have 0: "init_race rivals toy_dir = \<lparr>cpcs = [Start, Start, Start], rdisk = toy_dir\<rparr>"
    by (simp add: init_race_def rivals_def)
  have 1: "race_step rivals 1 ''d'' (Suc 0) \<lparr>cpcs = [Start, Start, Start], rdisk = toy_dir\<rparr> =
      \<lparr>cpcs = [Start, Opened, Start], rdisk = ?a\<rparr>"
    by (simp add: race_step_def len claim_step_Start P toy_dir_def exists_file_def)
  have 2: "race_step rivals 1 ''d'' 0 \<lparr>cpcs = [Start, Opened, Start], rdisk = ?a\<rparr> =
      \<lparr>cpcs = [Done None, Opened, Start], rdisk = ?a\<rparr>"
    using ea by (simp add: race_step_def len claim_step_Start P)
  have 3: "race_step rivals 1 ''d'' (Suc 0) \<lparr>cpcs = [Done None, Opened, Start], rdisk = ?a\<rparr> =
      \<lparr>cpcs = [Done None, Done (Some (''d/frame_1.ppm'', ''d/frame_2.ppm'')), Start], rdisk = ?b\<rparr>"
    by (simp add: race_step_def len claim_step_Opened P names) (simp add: rivals_def)
  have 4: "race_step rivals 1 ''d'' 2
      \<lparr>cpcs = [Done None, Done (Some (''d/frame_1.ppm'', ''d/frame_2.ppm'')), Start], rdisk = ?b\<rparr> =
      \<lparr>cpcs = [Done None, Done (Some (''d/frame_1.ppm'', ''d/frame_2.ppm'')), Done None], rdisk = ?b\<rparr>"
    using eb by (simp add: race_step_def len claim_step_Start P)
  show ?thesis
    by (simp add: race_after_def 0 1 2 3 4)
qed

theorem exclusive_claim_witness:
  "cpcs (race_after rivals 1 ''d'' toy_dir [1, 0, 1, 2]) =
     [Done None, Done (Some (''d/frame_1.ppm'', ''d/frame_2.ppm'')), Done None] \<and>
   \<not> exists_file toy_dir ''d/frame_1.plc'' \<and> fault toy_dir ''d/frame_1.plc'' = None \<and>
   length (filter succeeded (cpcs (race_after rivals 1 ''d'' toy_dir [1, 0, 1, 2]))) = 1"
proof -
  have h: "\<not> exists_file toy_dir ''d/frame_1.plc'' \<and> fault toy_dir ''d/frame_1.plc'' = None"
    by (simp add: toy_dir_def exists_file_def)
  have m: "\<exists>i<length rivals. cpcs (race_after rivals 1 ''d'' toy_dir [1, 0, 1, 2]) ! i \<noteq> Start"
    unfolding rivals_race by (rule exI [of _ 0]) (simp add: rivals_def)
  from exclusive_claim [OF rivals_placeholder, where s = toy_dir and sched = "[1, 0, 1, 2]"] h m
  have "length (filter succeeded (cpcs (race_after rivals 1 ''d'' toy_dir [1, 0, 1, 2]))) = 1"
    by blast
  with h rivals_race show ?thesis
    by blast
qed

end
